theory Spec2Isabelle
  imports Complex_Main "HOL-Library.Sublist"
begin

section \<open>JavaScript values seen by the option validator\<close>

text \<open>
  \<^verbatim>\<open>validateOptions\<close> inspects its argument with \<^verbatim>\<open>typeof\<close>, \<^verbatim>\<open>in\<close>,
  \<^verbatim>\<open>Array.isArray\<close> and truthiness, so it is modelled on untyped JavaScript values.
  A number is a rational, an infinity or NaN (a double is one of these; the two zeros are
  identified, which neither \<^verbatim>\<open><\<close> nor truthiness can tell apart). A string value is
  its sequence of UTF-16 code units, each a number below 65536. An object is its list of
  own properties, under the names the code looks up. Functions, symbols and bigints are
  left out.
\<close>

type_synonym jsstring = "nat list"

datatype jsnum = NaN | NegInf | Fin rat | PosInf

datatype jsval =
    JUndefined
  | JNull
  | JBool bool
  | JNum jsnum
  | JStr jsstring
  | JArr "jsval list"
  | JObj "(string \<times> jsval) list"

text \<open>What the code can throw: a runtime \<^verbatim>\<open>TypeError\<close>, or \<^verbatim>\<open>new Error(message)\<close>.\<close>

datatype error = TypeError | Error string

text \<open>\<^verbatim>\<open>n < r\<close> for a number \<open>n\<close> and a finite literal \<open>r\<close>; NaN compares false.\<close>

fun num_less :: "jsnum \<Rightarrow> rat \<Rightarrow> bool" where
  "num_less NaN r = False"
| "num_less NegInf r = True"
| "num_less (Fin q) r = (q < r)"
| "num_less PosInf r = False"

text \<open>ToBoolean.\<close>

fun truthy :: "jsval \<Rightarrow> bool" where
  "truthy JUndefined = False"
| "truthy JNull = False"
| "truthy (JBool b) = b"
| "truthy (JNum n) = (n \<noteq> NaN \<and> n \<noteq> Fin 0)"
| "truthy (JStr s) = (s \<noteq> [])"
| "truthy (JArr xs) = True"
| "truthy (JObj kvs) = True"

text \<open>\<^verbatim>\<open>key in obj\<close> and \<^verbatim>\<open>obj.key\<close> on a property list (an absent property reads
  \<^verbatim>\<open>undefined\<close>).\<close>

definition has_prop :: "(string \<times> jsval) list \<Rightarrow> string \<Rightarrow> bool" where
  "has_prop kvs k = (map_of kvs k \<noteq> None)"

definition get_prop :: "(string \<times> jsval) list \<Rightarrow> string \<Rightarrow> jsval" where
  "get_prop kvs k = (case map_of kvs k of None \<Rightarrow> JUndefined | Some v \<Rightarrow> v)"

text \<open>The code units of a text whose characters are all below 256 (ASCII in the samples).\<close>

definition code_units :: "string \<Rightarrow> jsstring" where
  "code_units s = map of_char s"

text \<open>
  \<^verbatim>\<open>String.prototype.trim\<close>: strips white space and line terminators at both ends. These
  are tab, line feed, vertical tab, form feed, carriage return, space, U+00A0, U+1680,
  U+2000 to U+200A, U+2028, U+2029, U+202F, U+205F, U+3000 and U+FEFF.
\<close>

definition is_space :: "nat \<Rightarrow> bool" where
  "is_space u =
     (u \<in> set [0x09, 0x0A, 0x0B, 0x0C, 0x0D, 0x20, 0xA0, 0x1680, 0x2028, 0x2029, 0x202F, 0x205F,
                0x3000, 0xFEFF] \<or>
      (0x2000 \<le> u \<and> u \<le> 0x200A))"

definition trim :: "jsstring \<Rightarrow> jsstring" where
  "trim s = rev (dropWhile is_space (rev (dropWhile is_space s)))"

text \<open>\<^verbatim>\<open>Array.prototype.join\<close> on strings.\<close>

fun join :: "string \<Rightarrow> string list \<Rightarrow> string" where
  "join sep [] = []"
| "join sep [x] = x"
| "join sep (x # y # ys) = x @ sep @ join sep (y # ys)"

text \<open>Decimal text of an array index, as the template literal \<^verbatim>\<open>${index}\<close> prints it.\<close>

definition digit_char :: "nat \<Rightarrow> char" where
  "digit_char d = char_of (48 + d)"

fun show_nat :: "nat \<Rightarrow> string" where
  "show_nat n = (if n < 10 then [digit_char n] else show_nat (n div 10) @ [digit_char (n mod 10)])"

declare show_nat.simps [simp del]

section \<open>Option validation\<close>

text \<open>
  \<^verbatim>\<open>IsDirOptions(item)\<close> is
  \<^verbatim>\<open>typeof item === 'object' && 'dir' in item && 'publicDir' in item\<close>.
  \<^verbatim>\<open>typeof null\<close> is \<^verbatim>\<open>'object'\<close> and \<^verbatim>\<open>'dir' in null\<close> throws a TypeError;
  an array is an object without these two properties.
\<close>

fun IsDirOptions :: "jsval \<Rightarrow> error + bool" where
  "IsDirOptions JNull = Inl TypeError"
| "IsDirOptions (JArr xs) = Inr False"
| "IsDirOptions (JObj kvs) = Inr (has_prop kvs ''dir'' \<and> has_prop kvs ''publicDir'')"
| "IsDirOptions v = Inr False"

text \<open>The callback of \<^verbatim>\<open>options.dirs.forEach((item, index) => ...)\<close>: the messages it
  pushes for one element.\<close>

definition dirs_item_errors :: "nat \<Rightarrow> jsval \<Rightarrow> error + string list" where
  "dirs_item_errors index item =
     (case item of
        JStr s \<Rightarrow>
          Inr (if trim s = [] then [''Param dirs['' @ show_nat index @ ''] cannot be empty string!'']
               else [])
      | _ \<Rightarrow>
          (case IsDirOptions item of
             Inl e \<Rightarrow> Inl e
           | Inr ok \<Rightarrow>
               Inr (if \<not> ok
                    then [''Param dirs['' @ show_nat index @ ''] must be have dir and publicDir property!'']
                    else [])))"

fun dirs_forEach :: "nat \<Rightarrow> jsval list \<Rightarrow> string list \<Rightarrow> error + string list" where
  "dirs_forEach index [] errors = Inr errors"
| "dirs_forEach index (item # items) errors =
     (case dirs_item_errors index item of
        Inl e \<Rightarrow> Inl e
      | Inr es \<Rightarrow> dirs_forEach (Suc index) items (errors @ es))"

text \<open>The \<^verbatim>\<open>if / else if / else if\<close> chain on \<^verbatim>\<open>options.dirs\<close>.\<close>

definition dirs_errors :: "jsval \<Rightarrow> error + string list" where
  "dirs_errors d =
     (if \<not> truthy d then Inr [''Param dirs is required!'']
      else (case d of
              JStr s \<Rightarrow> Inr []
            | JArr items \<Rightarrow> dirs_forEach 0 items []
            | _ \<Rightarrow> Inr [''Param dirs must be string or array!'']))"

definition batchSize_errors :: "(string \<times> jsval) list \<Rightarrow> string list" where
  "batchSize_errors options =
     (if has_prop options ''batchSize'' \<and>
         (case get_prop options ''batchSize'' of JNum n \<Rightarrow> num_less n 1 | _ \<Rightarrow> True)
      then [''BatchSize must be number and greater than 0!''] else [])"

definition timeout_errors :: "(string \<times> jsval) list \<Rightarrow> string list" where
  "timeout_errors options =
     (if has_prop options ''timeout'' \<and>
         (case get_prop options ''timeout'' of JNum n \<Rightarrow> num_less n 1000 | _ \<Rightarrow> True)
      then [''Timeout must be number and greater than 1000!''] else [])"

text \<open>The contents of the array \<^verbatim>\<open>errors\<close> when control reaches
  \<^verbatim>\<open>if (errors.length)\<close>, or the exception raised on the way.\<close>

definition collected_errors :: "(string \<times> jsval) list \<Rightarrow> error + string list" where
  "collected_errors options =
     (case dirs_errors (get_prop options ''dirs'') of
        Inl e \<Rightarrow> Inl e
      | Inr es \<Rightarrow> Inr (es @ batchSize_errors options @ timeout_errors options))"

definition validateOptions :: "(string \<times> jsval) list \<Rightarrow> error + unit" where
  "validateOptions options =
     (case collected_errors options of
        Inl e \<Rightarrow> Inl e
      | Inr errors \<Rightarrow>
          if errors \<noteq> [] then Inl (Error (''[vite-plugin-preload-images]: '' @ join '' '' errors))
          else Inr ())"

section \<open>Memoised pattern expansion\<close>

text \<open>
  \<^verbatim>\<open>fg.sync(pattern, options)\<close> is the external pattern expansion. It is a parameter of
  every function that may scan: the state of the file system at the time of the call.
  The only options the plugin passes are \<^verbatim>\<open>{}\<close> (\<open>None\<close>) and
  \<^verbatim>\<open>{ cwd: config.publicDir }\<close> (\<open>Some\<close> of the path).
\<close>

type_synonym glob_options = "string option"
type_synonym fast_glob = "string \<Rightarrow> glob_options \<Rightarrow> string list"

text \<open>The module-level \<^verbatim>\<open>const globCache = new Map<string, string[]>()\<close>.\<close>

type_synonym glob_cache = "string \<Rightarrow> string list option"

text \<open>\<^verbatim>\<open>JSON.stringify\<close> of a string: quotes, and escapes for the quote, the backslash
  and the control characters.\<close>

definition dquote :: char where
  "dquote = CHR 0x22"

definition bslash :: char where
  "bslash = CHR 0x5C"

definition hex_char :: "nat \<Rightarrow> char" where
  "hex_char d = (if d < 10 then char_of (48 + d) else char_of (87 + d))"

definition json_escape :: "char \<Rightarrow> string" where
  "json_escape c =
     (if c = dquote then [bslash, dquote]
      else if c = bslash then [bslash, bslash]
      else if c = CHR 0x08 then [bslash, CHR ''b'']
      else if c = CHR 0x09 then [bslash, CHR ''t'']
      else if c = CHR 0x0A then [bslash, CHR ''n'']
      else if c = CHR 0x0C then [bslash, CHR ''f'']
      else if c = CHR 0x0D then [bslash, CHR ''r'']
      else if (of_char c :: nat) < 32
        then [bslash, CHR ''u'', CHR ''0'', CHR ''0'',
              hex_char ((of_char c :: nat) div 16), hex_char ((of_char c :: nat) mod 16)]
      else [c])"

definition json_string :: "string \<Rightarrow> string" where
  "json_string s = [dquote] @ concat (map json_escape s) @ [dquote]"

text \<open>\<^verbatim>\<open>JSON.stringify(options)\<close> for the two shapes of \<^verbatim>\<open>options\<close>.\<close>

definition JSON_stringify :: "glob_options \<Rightarrow> string" where
  "JSON_stringify options =
     (case options of
        None \<Rightarrow> ''{}''
      | Some cwd \<Rightarrow> ''{'' @ json_string ''cwd'' @ '':'' @ json_string cwd @ ''}'')"

definition glob_key :: "string \<Rightarrow> glob_options \<Rightarrow> string" where
  "glob_key pattern options = pattern @ ''-'' @ JSON_stringify options"

text \<open>\<^verbatim>\<open>getCachedGlobSync\<close> returns \<^verbatim>\<open>globCache.get(key)\<close>, typed
  \<^verbatim>\<open>string[] | undefined\<close>, and the cache as it leaves it.\<close>

definition getCachedGlobSync ::
  "fast_glob \<Rightarrow> glob_cache \<Rightarrow> string \<Rightarrow> glob_options \<Rightarrow> string list option \<times> glob_cache" where
  "getCachedGlobSync fg globCache pattern options =
     (let key = glob_key pattern options;
          globCache' = (if globCache key = None
                        then globCache(key \<mapsto> fg pattern options) else globCache)
      in (globCache' key, globCache'))"

section \<open>Matching emitted artifacts\<close>

text \<open>
  An entry of the output bundle: \<^verbatim>\<open>fileName\<close> (the final served name), \<^verbatim>\<open>name\<close>
  (\<open>None\<close> is \<^verbatim>\<open>undefined\<close>) and \<^verbatim>\<open>originalFileName\<close> (\<open>None\<close> is
  \<^verbatim>\<open>undefined\<close> or \<^verbatim>\<open>null\<close>).
\<close>

record Bundle =
  fileName :: string
  name :: "string option"
  originalFileName :: "string option"

text \<open>\<^verbatim>\<open>hay.includes(needle)\<close> on strings: \<open>needle\<close> occurs in \<open>hay\<close> as a
  contiguous piece.\<close>

fun str_includes :: "string \<Rightarrow> string \<Rightarrow> bool" where
  "str_includes [] needle = (needle = [])"
| "str_includes (c # hay) needle = (prefix needle (c # hay) \<or> str_includes hay needle)"

text \<open>The argument of \<^verbatim>\<open>file.includes(bundle.name!)\<close> after ToString:
  \<^verbatim>\<open>undefined\<close> becomes the text \<^verbatim>\<open>undefined\<close>.\<close>

definition name_text :: "Bundle \<Rightarrow> string" where
  "name_text bundle = (case name bundle of None \<Rightarrow> ''undefined'' | Some n \<Rightarrow> n)"

definition matchBundleWithFiles :: "Bundle \<Rightarrow> string list option \<Rightarrow> bool" where
  "matchBundleWithFiles bundle files =
     (case files of
        None \<Rightarrow> False
      | Some fs \<Rightarrow>
          (let fallback = list_ex (\<lambda>file. str_includes file (name_text bundle)) fs
           in case originalFileName bundle of
                Some orig \<Rightarrow> if orig \<noteq> [] then orig \<in> set fs else fallback
              | None \<Rightarrow> fallback))"

definition collectMatchedFiles ::
  "fast_glob \<Rightarrow> glob_cache \<Rightarrow> string \<Rightarrow> Bundle list \<Rightarrow> glob_options \<Rightarrow> string list \<times> glob_cache" where
  "collectMatchedFiles fg globCache pattern bundles options =
     (let (files, globCache') = getCachedGlobSync fg globCache pattern options
      in (map fileName (filter (\<lambda>bundle. matchBundleWithFiles bundle files) bundles), globCache'))"

section \<open>The plugin instance\<close>

text \<open>
  The hooks work on options of the declared type \<^verbatim>\<open>Options\<close>: an element of
  \<^verbatim>\<open>dirs\<close> is a string or a \<^verbatim>\<open>DirOptions\<close> object (its fields \<^verbatim>\<open>dir\<close> and
  \<^verbatim>\<open>publicDir\<close>, in this order), and \<^verbatim>\<open>dirs\<close> is one string or an array of
  elements. The tests \<^verbatim>\<open>typeof item === 'string'\<close> and \<^verbatim>\<open>IsDirOptions(item)\<close>
  of the hooks are the case distinction on \<open>Target\<close>. An optional field that is left out
  is \<open>None\<close>.
\<close>

datatype Target = Str string | DirOptions string bool

datatype Dirs = Single string | Many "Target list"

record Options =
  dirs :: Dirs
  attrs :: "(string \<times> string) list option"
  batchSize :: "jsnum option"
  publicDir :: "bool option"
  timeout :: "jsnum option"

text \<open>The default of the destructuring \<^verbatim>\<open>publicDir = false\<close>.\<close>

definition publicDir_flag :: "Options \<Rightarrow> bool" where
  "publicDir_flag options = (case publicDir options of None \<Rightarrow> False | Some b \<Rightarrow> b)"

text \<open>Of the host's resolved configuration only \<^verbatim>\<open>config.publicDir\<close> is read: the path
  of the public root, or the empty string when the project has none.\<close>

record ResolvedConfig =
  config_publicDir :: string

text \<open>The two variables of the closure: \<^verbatim>\<open>let assets: string[] = []\<close> and
  \<^verbatim>\<open>let config: ResolvedConfig\<close> (unset until \<^verbatim>\<open>configResolved\<close> runs).\<close>

record Plugin =
  assets :: "string list"
  config :: "ResolvedConfig option"

text \<open>
  \<^verbatim>\<open>VitePluginPreloadImages(options)\<close> validates first; what it returns is the instance
  with its fresh closure. The cache is passed through to show what construction leaves
  of it.
\<close>

definition VitePluginPreloadImages ::
  "(string \<times> jsval) list \<Rightarrow> glob_cache \<Rightarrow> (error + Plugin) \<times> glob_cache" where
  "VitePluginPreloadImages options globCache =
     (case validateOptions options of
        Inl e \<Rightarrow> (Inl e, globCache)
      | Inr u \<Rightarrow> (Inr \<lparr>assets = [], config = None\<rparr>, globCache))"

definition configResolved :: "ResolvedConfig \<Rightarrow> Plugin \<Rightarrow> Plugin" where
  "configResolved resolvedConfig plugin = plugin\<lparr>config := Some resolvedConfig\<rparr>"

subsection \<open>generateBundle\<close>

text \<open>\<^verbatim>\<open>assets.push(...collectMatchedFiles(pattern, bundles))\<close>.\<close>

definition push_matched ::
  "fast_glob \<Rightarrow> string \<Rightarrow> Bundle list \<Rightarrow> Plugin \<times> glob_cache \<Rightarrow> Plugin \<times> glob_cache" where
  "push_matched fg pattern bundles = (\<lambda>(plugin, globCache).
     let (matched, globCache') = collectMatchedFiles fg globCache pattern bundles None
     in (plugin\<lparr>assets := assets plugin @ matched\<rparr>, globCache'))"

text \<open>The callback of \<^verbatim>\<open>dirs.forEach\<close> in \<^verbatim>\<open>generateBundle\<close>.\<close>

definition generateBundle_item ::
  "fast_glob \<Rightarrow> Options \<Rightarrow> Bundle list \<Rightarrow> Target \<Rightarrow> Plugin \<times> glob_cache \<Rightarrow> Plugin \<times> glob_cache" where
  "generateBundle_item fg options bundles item w =
     (case item of
        Str s \<Rightarrow> if \<not> publicDir_flag options then push_matched fg s bundles w else w
      | DirOptions d p \<Rightarrow> if \<not> p then push_matched fg d bundles w else w)"

definition generateBundle ::
  "fast_glob \<Rightarrow> Options \<Rightarrow> Bundle list \<Rightarrow> Plugin \<times> glob_cache \<Rightarrow> Plugin \<times> glob_cache" where
  "generateBundle fg options bundles w =
     (case dirs options of
        Single s \<Rightarrow> if \<not> publicDir_flag options then push_matched fg s bundles w else w
      | Many items \<Rightarrow> foldl (\<lambda>w item. generateBundle_item fg options bundles item w) w items)"

subsection \<open>transformIndexHtml\<close>

text \<open>\<^verbatim>\<open>const files = getCachedGlobSync(pattern, options); if (files) images.push(...files)\<close>.\<close>

definition push_files ::
  "fast_glob \<Rightarrow> string \<Rightarrow> glob_options \<Rightarrow> string list \<times> glob_cache \<Rightarrow> string list \<times> glob_cache" where
  "push_files fg pattern options = (\<lambda>(images, globCache).
     let (files, globCache') = getCachedGlobSync fg globCache pattern options
     in (case files of None \<Rightarrow> (images, globCache') | Some fs \<Rightarrow> (images @ fs, globCache')))"

text \<open>Reading \<^verbatim>\<open>config.publicDir\<close>: a TypeError while \<^verbatim>\<open>config\<close> is unset.\<close>

definition read_publicDir :: "Plugin \<Rightarrow> error + string" where
  "read_publicDir plugin =
     (case config plugin of None \<Rightarrow> Inl TypeError | Some c \<Rightarrow> Inr (config_publicDir c))"

text \<open>
  Development server, \<^verbatim>\<open>dirs\<close> a single string:
  \<^verbatim>\<open>getCachedGlobSync(dirs, publicDir ? { cwd: config.publicDir } : {})\<close>.
\<close>

definition dev_single ::
  "fast_glob \<Rightarrow> Plugin \<Rightarrow> bool \<Rightarrow> string \<Rightarrow> string list \<times> glob_cache \<Rightarrow> error + string list \<times> glob_cache" where
  "dev_single fg plugin flag pattern acc =
     (if flag
      then (case read_publicDir plugin of
              Inl e \<Rightarrow> Inl e
            | Inr pub \<Rightarrow> Inr (push_files fg pattern (Some pub) acc))
      else Inr (push_files fg pattern None acc))"

text \<open>
  Development server, one element of the array, with \<open>flag\<close> the global
  \<^verbatim>\<open>publicDir\<close> for a string and \<^verbatim>\<open>item.publicDir\<close> for an object:
  \<^verbatim>\<open>if (flag && !config.publicDir) return\<close>, then the expansion as above.
\<close>

definition dev_target ::
  "fast_glob \<Rightarrow> Plugin \<Rightarrow> bool \<Rightarrow> string \<Rightarrow> string list \<times> glob_cache \<Rightarrow> error + string list \<times> glob_cache" where
  "dev_target fg plugin flag pattern acc =
     (if flag
      then (case read_publicDir plugin of
              Inl e \<Rightarrow> Inl e
            | Inr pub \<Rightarrow> if pub = [] then Inr acc else Inr (push_files fg pattern (Some pub) acc))
      else Inr (push_files fg pattern None acc))"

text \<open>
  Production build, a single string or one element of the array:
  \<^verbatim>\<open>if (flag && config.publicDir) { ... getCachedGlobSync(pattern, { cwd: config.publicDir }) ... }\<close>.
\<close>

definition prod_target ::
  "fast_glob \<Rightarrow> Plugin \<Rightarrow> bool \<Rightarrow> string \<Rightarrow> string list \<times> glob_cache \<Rightarrow> error + string list \<times> glob_cache" where
  "prod_target fg plugin flag pattern acc =
     (if flag
      then (case read_publicDir plugin of
              Inl e \<Rightarrow> Inl e
            | Inr pub \<Rightarrow> if pub \<noteq> [] then Inr (push_files fg pattern (Some pub) acc) else Inr acc)
      else Inr acc)"

definition dev_item ::
  "fast_glob \<Rightarrow> Options \<Rightarrow> Plugin \<Rightarrow> Target \<Rightarrow> string list \<times> glob_cache \<Rightarrow> error + string list \<times> glob_cache" where
  "dev_item fg options plugin item acc =
     (case item of
        Str s \<Rightarrow> dev_target fg plugin (publicDir_flag options) s acc
      | DirOptions d p \<Rightarrow> dev_target fg plugin p d acc)"

definition prod_item ::
  "fast_glob \<Rightarrow> Options \<Rightarrow> Plugin \<Rightarrow> Target \<Rightarrow> string list \<times> glob_cache \<Rightarrow> error + string list \<times> glob_cache" where
  "prod_item fg options plugin item acc =
     (case item of
        Str s \<Rightarrow> prod_target fg plugin (publicDir_flag options) s acc
      | DirOptions d p \<Rightarrow> prod_target fg plugin p d acc)"

text \<open>\<^verbatim>\<open>forEach\<close> with a callback that may throw: the exception ends the loop.\<close>

fun forEach :: "('a \<Rightarrow> 's \<Rightarrow> error + 's) \<Rightarrow> 'a list \<Rightarrow> 's \<Rightarrow> error + 's" where
  "forEach f [] acc = Inr acc"
| "forEach f (x # xs) acc = (case f x acc of Inl e \<Rightarrow> Inl e | Inr acc' \<Rightarrow> forEach f xs acc')"

text \<open>The array \<^verbatim>\<open>images\<close> just before it is deduplicated; \<open>server\<close> is the truth
  value of \<^verbatim>\<open>ctx.server\<close>.\<close>

definition collect_images ::
  "fast_glob \<Rightarrow> Options \<Rightarrow> Plugin \<Rightarrow> bool \<Rightarrow> glob_cache \<Rightarrow> error + string list \<times> glob_cache" where
  "collect_images fg options plugin server globCache =
     (if server
      then (case dirs options of
              Single s \<Rightarrow> dev_single fg plugin (publicDir_flag options) s ([], globCache)
            | Many items \<Rightarrow> forEach (dev_item fg options plugin) items ([], globCache))
      else (case (case dirs options of
                    Single s \<Rightarrow> prod_target fg plugin (publicDir_flag options) s ([], globCache)
                  | Many items \<Rightarrow> forEach (prod_item fg options plugin) items ([], globCache)) of
              Inl e \<Rightarrow> Inl e
            | Inr (images, globCache') \<Rightarrow> Inr (images @ assets plugin, globCache')))"

text \<open>\<^verbatim>\<open>Array.from(new Set(images))\<close>: a Set keeps its elements in insertion order and
  ignores an element it already has.\<close>

definition Set_add :: "string list \<Rightarrow> string \<Rightarrow> string list" where
  "Set_add s x = (if x \<in> set s then s else s @ [x])"

definition new_Set :: "string list \<Rightarrow> string list" where
  "new_Set images = foldl Set_add [] images"

text \<open>The list of URLs that \<^verbatim>\<open>transformIndexHtml\<close> writes into the script
  (\<^verbatim>\<open>JSON.stringify(images)\<close>), and the cache as the hook leaves it.\<close>

definition transformIndexHtml ::
  "fast_glob \<Rightarrow> Options \<Rightarrow> Plugin \<Rightarrow> bool \<Rightarrow> glob_cache \<Rightarrow> error + string list \<times> glob_cache" where
  "transformIndexHtml fg options plugin server globCache =
     (case collect_images fg options plugin server globCache of
        Inl e \<Rightarrow> Inl e
      | Inr (images, globCache') \<Rightarrow> Inr (new_Set images, globCache'))"

section \<open>Vocabulary of the properties\<close>

text \<open>The list that a lookup of \<open>pattern\<close> and \<open>options\<close> returns on the cache
  \<open>globCache\<close>: the list stored under the key, or what the file system \<open>fg\<close> gives when
  nothing is stored.\<close>

definition looked_up :: "fast_glob \<Rightarrow> glob_cache \<Rightarrow> string \<Rightarrow> glob_options \<Rightarrow> string list" where
  "looked_up fg globCache pattern options =
     (case globCache (glob_key pattern options) of None \<Rightarrow> fg pattern options | Some files \<Rightarrow> files)"

text \<open>Every memoised expansion is what the file system \<open>fg\<close> gives now: so it is for
  the empty cache of a fresh process, and while the files do not change.\<close>

definition cache_agrees :: "fast_glob \<Rightarrow> glob_cache \<Rightarrow> bool" where
  "cache_agrees fg globCache =
     (\<forall>pattern options files. globCache (glob_key pattern options) = Some files \<longrightarrow> files = fg pattern options)"

text \<open>
  The declared configuration as a sequence of targets (a single string is the
  one-element sequence), a target's pattern, and whether the code reads it from the
  public root: an object says so itself, a string follows the global \<^verbatim>\<open>publicDir\<close>.
\<close>

definition declared_targets :: "Options \<Rightarrow> Target list" where
  "declared_targets options = (case dirs options of Single s \<Rightarrow> [Str s] | Many items \<Rightarrow> items)"

definition fromPublicRoot :: "Options \<Rightarrow> Target \<Rightarrow> bool" where
  "fromPublicRoot options item = (case item of Str s \<Rightarrow> publicDir_flag options | DirOptions d p \<Rightarrow> p)"

definition pattern_of :: "Target \<Rightarrow> string" where
  "pattern_of item = (case item of Str s \<Rightarrow> s | DirOptions d p \<Rightarrow> d)"

text \<open>The position of the first occurrence of \<open>x\<close> in \<open>xs\<close>.\<close>

definition first_index :: "'a list \<Rightarrow> 'a \<Rightarrow> nat" where
  "first_index xs x = length (takeWhile (\<lambda>y. y \<noteq> x) xs)"

text \<open>Helpers of the proof that \<open>glob_key\<close> is injective: the value of a hexadecimal
  digit, and the character that an escaped text begins with.\<close>

definition hex_val :: "char \<Rightarrow> nat" where
  "hex_val c = (if (of_char c :: nat) < 58 then of_char c - 48 else of_char c - 87)"

definition unescape_head :: "string \<Rightarrow> char" where
  "unescape_head s =
     (let x = s ! 0; y = s ! 1 in
      if x \<noteq> bslash then x
      else if y = CHR ''u'' then char_of (16 * hex_val (s ! 4) + hex_val (s ! 5))
      else if y = CHR ''b'' then CHR 0x08
      else if y = CHR ''t'' then CHR 0x09
      else if y = CHR ''n'' then CHR 0x0A
      else if y = CHR ''f'' then CHR 0x0C
      else if y = CHR ''r'' then CHR 0x0D
      else y)"

section \<open>Hook invocations\<close>

text \<open>The host calls the hooks of one instance in some order; an exception ends the run.
  \<^verbatim>\<open>transformIndexHtml\<close> only reads the closure.\<close>

datatype Hook =
    ConfigResolved ResolvedConfig
  | GenerateBundle fast_glob "Bundle list"
  | TransformIndexHtml fast_glob bool

definition invoke :: "Options \<Rightarrow> Hook \<Rightarrow> Plugin \<times> glob_cache \<Rightarrow> error + Plugin \<times> glob_cache" where
  "invoke options hook w =
     (case hook of
        ConfigResolved resolvedConfig \<Rightarrow> Inr (configResolved resolvedConfig (fst w), snd w)
      | GenerateBundle fg bundles \<Rightarrow> Inr (generateBundle fg options bundles w)
      | TransformIndexHtml fg server \<Rightarrow>
          (case transformIndexHtml fg options (fst w) server (snd w) of
             Inl e \<Rightarrow> Inl e
           | Inr (images, globCache') \<Rightarrow> Inr (fst w, globCache')))"

section \<open>Sample data\<close>

text \<open>File systems, options, instances and artifacts at which the properties below are
  evaluated. A file system answers a pattern by the options alone.\<close>

definition fs_ab :: fast_glob where
  "fs_ab pattern options = (if options = None then [''a.png'', ''b.png'', ''a.png''] else [])"

definition opts_single :: Options where
  "opts_single = \<lparr>dirs = Single ''src/assets/*.png'', attrs = None, batchSize = None, publicDir = None, timeout = None\<rparr>"

definition plugin_ready :: Plugin where
  "plugin_ready = \<lparr>assets = [], config = Some \<lparr>config_publicDir = ''/app/public''\<rparr>\<rparr>"

definition fs_a :: fast_glob where
  "fs_a pattern options = (if options = None then [''a.png''] else [])"

definition bundle_a :: Bundle where
  "bundle_a = \<lparr>fileName = ''assets/a.1a2b.png'', name = Some ''a.png'', originalFileName = Some ''src/assets/a.png''\<rparr>"

definition bundle_b :: Bundle where
  "bundle_b = \<lparr>fileName = ''assets/b.3c4d.png'', name = Some ''b.png'', originalFileName = Some ''src/assets/b.png''\<rparr>"

definition fs_src :: fast_glob where
  "fs_src pattern options = (if options = None then [''src/assets/a.png'', ''src/assets/b.png''] else [])"

definition fs_root :: fast_glob where
  "fs_root pattern options = (if options = Some [] then [''images/a.png''] else [])"

definition opts_public_single :: Options where
  "opts_public_single = \<lparr>dirs = Single ''images/*.png'', attrs = None, batchSize = None,
     publicDir = Some True, timeout = None\<rparr>"

definition opts_public_array :: Options where
  "opts_public_array = \<lparr>dirs = Many [Str ''images/*.png''], attrs = None, batchSize = None,
     publicDir = Some True, timeout = None\<rparr>"

definition plugin_no_public :: Plugin where
  "plugin_no_public = \<lparr>assets = [], config = Some \<lparr>config_publicDir = []\<rparr>\<rparr>"

definition bundle_old :: Bundle where
  "bundle_old = \<lparr>fileName = ''assets/a.1a2b.png'', name = Some ''a.png'', originalFileName = None\<rparr>"

definition bundle_other :: Bundle where
  "bundle_other = \<lparr>fileName = ''assets/a.9xZ.png'', name = Some ''a.png'', originalFileName = None\<rparr>"

definition bundle_data :: Bundle where
  "bundle_data = \<lparr>fileName = ''assets/data.5e6f.png'', name = Some ''data.png'', originalFileName = None\<rparr>"

definition bundle_c :: Bundle where
  "bundle_c = \<lparr>fileName = ''assets/c.7g8h.png'', name = Some ''c.png'', originalFileName = Some ''other/c.png''\<rparr>"

definition fs_one :: fast_glob where
  "fs_one pattern options = (if options = None then [''src/assets/a.png''] else [])"

definition opts_all_wrong :: "(string \<times> jsval) list" where
  "opts_all_wrong = [(''batchSize'', JNum (Fin 0)), (''timeout'', JNum (Fin 999))]"

definition fs_two :: fast_glob where
  "fs_two pattern options =
     (if options = None then [''images/src.png'']
      else if options = Some ''/app/public'' then [''images/pub.png''] else [])"

definition opts_mixed :: Options where
  "opts_mixed = \<lparr>dirs = Many [DirOptions ''icons/*.svg'' True, Str ''src/assets/*.png''],
     attrs = None, batchSize = None, publicDir = None, timeout = None\<rparr>"

definition fs_scenario_A :: fast_glob where
  "fs_scenario_A pattern options = (if options = None then [''a.png'', ''b.png''] else [])"

section \<open>The cache key is injective\<close>

lemma hex_char_code:
  "d < 16 \<Longrightarrow> (of_char (hex_char d) :: nat) = (if d < 10 then 48 + d else 87 + d)"
  by (simp add: hex_char_def)

lemma hex_val_hex_char: "d < 16 \<Longrightarrow> hex_val (hex_char d) = d"
  by (simp add: hex_val_def hex_char_code)

lemma unescape_head_escape: "unescape_head (json_escape c @ r) = c"
proof -
  have small: "(of_char c :: nat) < 32 \<Longrightarrow>
     char_of (16 * hex_val (hex_char ((of_char c :: nat) div 16))
              + hex_val (hex_char ((of_char c :: nat) mod 16))) = c"
    by (simp add: hex_val_hex_char)
  show ?thesis
    using small
    by (simp add: unescape_head_def json_escape_def dquote_def bslash_def Let_def)
qed

lemma json_escape_not_Nil: "json_escape c \<noteq> []"
  by (simp add: json_escape_def)

lemma escaped_inj: "concat (map json_escape s) = concat (map json_escape t) \<Longrightarrow> s = t"
proof (induction s arbitrary: t)
  case Nil
  then show ?case by (cases t) (simp_all add: json_escape_not_Nil)
next
  case (Cons a s)
  show ?case
  proof (cases t)
    case Nil
    with Cons.prems show ?thesis by (simp add: json_escape_not_Nil)
  next
    case (Cons b t')
    with Cons.prems
    have eq: "json_escape a @ concat (map json_escape s) = json_escape b @ concat (map json_escape t')"
      by simp
    then have "unescape_head (json_escape a @ concat (map json_escape s))
             = unescape_head (json_escape b @ concat (map json_escape t'))"
      by simp
    then have ab: "a = b" by (simp add: unescape_head_escape)
    with eq have "concat (map json_escape s) = concat (map json_escape t')" by simp
    with Cons.IH ab Cons show ?thesis by simp
  qed
qed

lemma hex_char_not_dquote: "d < 16 \<Longrightarrow> hex_char d \<noteq> dquote"
proof
  assume d: "d < 16" and "hex_char d = dquote"
  then have "(of_char (hex_char d) :: nat) = of_char dquote" by simp
  with d show False by (simp add: hex_char_code dquote_def split: if_splits)
qed

lemma dquote_in_escape: "dquote \<in> set (json_escape c) \<Longrightarrow> json_escape c = [bslash, dquote]"
proof -
  assume a: "dquote \<in> set (json_escape c)"
  have h1: "(of_char c :: nat) < 32 \<Longrightarrow> hex_char ((of_char c :: nat) div 16) \<noteq> dquote"
    by (rule hex_char_not_dquote) simp
  have h2: "hex_char ((of_char c :: nat) mod 16) \<noteq> dquote"
    by (rule hex_char_not_dquote) simp
  from a h1 h2 show ?thesis
    by (auto simp add: json_escape_def dquote_def bslash_def split: if_splits)
qed

lemma escaped_dquote:
  "concat (map json_escape s) = A @ dquote # B \<Longrightarrow> A \<noteq> [] \<and> last A = bslash"
proof (induction s arbitrary: A B rule: rev_induct)
  case Nil
  then show ?case by simp
next
  case (snoc a s)
  then have "concat (map json_escape s) @ json_escape a = A @ dquote # B" by simp
  then obtain us where
    "(concat (map json_escape s) = A @ us \<and> us @ json_escape a = dquote # B) \<or>
     (concat (map json_escape s) @ us = A \<and> json_escape a = us @ dquote # B)"
    by (auto simp add: append_eq_append_conv2)
  then show ?case
  proof
    assume c1: "concat (map json_escape s) = A @ us \<and> us @ json_escape a = dquote # B"
    show ?thesis
    proof (cases us)
      case Nil
      with c1 have "json_escape a = dquote # B" by simp
      then have "dquote \<in> set (json_escape a)" by simp
      then have "json_escape a = [bslash, dquote]" by (rule dquote_in_escape)
      with \<open>json_escape a = dquote # B\<close> show ?thesis by (simp add: dquote_def bslash_def)
    next
      case (Cons u us')
      with c1 have "concat (map json_escape s) = A @ dquote # us'" by simp
      then show ?thesis by (rule snoc.IH)
    qed
  next
    assume c2: "concat (map json_escape s) @ us = A \<and> json_escape a = us @ dquote # B"
    then have "dquote \<in> set (json_escape a)" by simp
    then have "json_escape a = [bslash, dquote]" by (rule dquote_in_escape)
    with c2 have "us = [bslash]"
      by (auto simp add: Cons_eq_append_conv dquote_def bslash_def)
    with c2 show ?thesis by auto
  qed
qed

lemma overlap_Nil:
  assumes X: "X @ [CHR '':'', dquote] = X' @ [CHR '':'', dquote] @ us"
    and E: "us @ concat (map json_escape s) = concat (map json_escape s')"
  shows "us = []"
proof (rule ccontr)
  assume ne: "us \<noteq> []"
  from X have "last (X @ [CHR '':'', dquote]) = last (X' @ [CHR '':'', dquote] @ us)" by simp
  with ne have l: "last us = dquote" by simp
  with ne have us: "us = butlast us @ [dquote]" by (metis append_butlast_last_id)
  with E have "concat (map json_escape s') = butlast us @ dquote # concat (map json_escape s)"
    by (metis append.assoc append_Cons append_Nil)
  then have b: "butlast us \<noteq> [] \<and> last (butlast us) = bslash" by (rule escaped_dquote)
  from X us have "X @ [CHR '':'', dquote] = (X' @ [CHR '':'', dquote] @ butlast us) @ [dquote]"
    by (metis append.assoc)
  then have "X @ [CHR '':''] = X' @ [CHR '':'', dquote] @ butlast us" by simp
  then have "last (X @ [CHR '':'']) = last (X' @ [CHR '':'', dquote] @ butlast us)" by simp
  with b show False by (simp add: bslash_def)
qed

lemma last_two_eq: "xs @ [a, b] = ys @ [c, d] \<Longrightarrow> a = c \<and> b = d"
  by simp

lemma glob_key_None_Some: "glob_key p None \<noteq> glob_key p' (Some c)"
proof
  assume "glob_key p None = glob_key p' (Some c)"
  then have "(p @ ''-'') @ [CHR ''{'', CHR ''}''] =
        (p' @ ''-{'' @ json_string ''cwd'' @ '':'' @ [dquote] @ concat (map json_escape c)) @ [dquote, CHR ''}'']"
    by (simp add: glob_key_def JSON_stringify_def json_string_def)
  then have "CHR ''{'' = dquote" by (rule last_two_eq [THEN conjunct1])
  then show False by (simp add: dquote_def)
qed

lemma glob_key_inj:
  assumes "glob_key p opt = glob_key p' opt'"
  shows "p = p' \<and> opt = opt'"
proof (cases opt)
  case None
  show ?thesis
  proof (cases opt')
    case None
    with \<open>opt = None\<close> assms show ?thesis by (simp add: glob_key_def JSON_stringify_def)
  next
    case (Some c')
    with \<open>opt = None\<close> assms glob_key_None_Some [of p p' c'] show ?thesis by simp
  qed
next
  case (Some c)
  show ?thesis
  proof (cases opt')
    case None
    with \<open>opt = Some c\<close> assms glob_key_None_Some [of p' p c] show ?thesis by simp
  next
    case (Some c')
    define X where "X = (p @ ''-{'' @ json_string ''cwd'') @ [CHR '':'', dquote]"
    define X' where "X' = (p' @ ''-{'' @ json_string ''cwd'') @ [CHR '':'', dquote]"
    define E where "E = concat (map json_escape c)"
    define E' where "E' = concat (map json_escape c')"
    from \<open>opt = Some c\<close> \<open>opt' = Some c'\<close> assms
    have "(X @ E) @ [dquote, CHR ''}''] = (X' @ E') @ [dquote, CHR ''}'']"
      by (simp add: glob_key_def JSON_stringify_def json_string_def X_def X'_def E_def E'_def)
    then have eq: "X @ E = X' @ E'"
      by (simp only: append_same_eq)
    then obtain us where
      "(X = X' @ us \<and> us @ E = E') \<or> (X @ us = X' \<and> E = us @ E')"
      by (auto simp only: append_eq_append_conv2)
    then have both: "X = X' \<and> E = E'"
    proof
      assume a: "X = X' @ us \<and> us @ E = E'"
      then have "us = []"
        using overlap_Nil [of "p @ ''-{'' @ json_string ''cwd''" "p' @ ''-{'' @ json_string ''cwd''" us c c']
        by (simp only: X_def X'_def E_def E'_def append_assoc)
      with a show ?thesis by simp
    next
      assume a: "X @ us = X' \<and> E = us @ E'"
      then have "X' = X @ us" and "us @ E' = E" by simp_all
      then have "us = []"
        using overlap_Nil [of "p' @ ''-{'' @ json_string ''cwd''" "p @ ''-{'' @ json_string ''cwd''" us c' c]
        by (simp only: X_def X'_def E_def E'_def append_assoc)
      with a show ?thesis by simp
    qed
    from both have "p @ ''-{'' @ json_string ''cwd'' = p' @ ''-{'' @ json_string ''cwd''"
      by (simp only: X_def X'_def append_same_eq)
    then have "p = p'" by (simp only: append_same_eq)
    moreover from both have "c = c'" unfolding E_def E'_def by (blast intro: escaped_inj)
    ultimately show ?thesis using \<open>opt = Some c\<close> \<open>opt' = Some c'\<close> by simp
  qed
qed

section \<open>Lemmas on the cache and on deduplication\<close>


lemma getCached_fst:
  "fst (getCachedGlobSync fg c p opt) =
     Some (case c (glob_key p opt) of None \<Rightarrow> fg p opt | Some files \<Rightarrow> files)"
  by (auto simp add: getCachedGlobSync_def Let_def)

lemma getCached_snd:
  "snd (getCachedGlobSync fg c p opt) =
     (if c (glob_key p opt) = None then c(glob_key p opt \<mapsto> fg p opt) else c)"
  by (simp add: getCachedGlobSync_def Let_def)

lemma getCached_grows: "c \<subseteq>\<^sub>m snd (getCachedGlobSync fg c p opt)"
  by (auto simp add: getCached_snd map_le_def)

lemma getCached_replay:
  assumes "snd (getCachedGlobSync fg c p opt) \<subseteq>\<^sub>m cF"
  shows "getCachedGlobSync fg' cF p opt = (fst (getCachedGlobSync fg c p opt), cF)"
proof -
  let ?k = "glob_key p opt"
  have "snd (getCachedGlobSync fg c p opt) ?k = fst (getCachedGlobSync fg c p opt)"
    by (simp add: getCachedGlobSync_def Let_def)
  moreover have "?k \<in> dom (snd (getCachedGlobSync fg c p opt))"
    by (auto simp add: getCached_snd)
  ultimately have "cF ?k = fst (getCachedGlobSync fg c p opt)"
    using assms by (metis map_le_def)
  moreover have "fst (getCachedGlobSync fg c p opt) \<noteq> None" by (simp add: getCached_fst)
  ultimately show ?thesis by (auto simp add: getCachedGlobSync_def Let_def)
qed

lemma getCached_agrees_fst:
  "cache_agrees fg c \<Longrightarrow> fst (getCachedGlobSync fg c p opt) = Some (fg p opt)"
  by (auto simp add: getCached_fst cache_agrees_def split: option.splits)

lemma getCached_agrees_snd:
  assumes "cache_agrees fg c"
  shows "cache_agrees fg (snd (getCachedGlobSync fg c p opt))"
  unfolding cache_agrees_def
proof (intro allI impI)
  fix p' opt' files
  assume a: "snd (getCachedGlobSync fg c p opt) (glob_key p' opt') = Some files"
  show "files = fg p' opt'"
  proof (cases "glob_key p' opt' = glob_key p opt \<and> c (glob_key p opt) = None")
    case True
    then have "p' = p \<and> opt' = opt" by (blast dest: glob_key_inj)
    with a True show ?thesis by (simp add: getCached_snd)
  next
    case False
    with a have "c (glob_key p' opt') = Some files"
      by (auto simp add: getCached_snd split: if_splits)
    with assms show ?thesis by (simp add: cache_agrees_def)
  qed
qed

lemma cache_agrees_empty: "cache_agrees fg Map.empty"
  by (simp add: cache_agrees_def)


lemma new_Set_snoc: "new_Set (xs @ [x]) = Set_add (new_Set xs) x"
  by (simp add: new_Set_def)

lemma new_Set_Nil: "new_Set [] = []"
  by (simp add: new_Set_def)

lemma set_new_Set: "set (new_Set xs) = set xs"
  by (induction xs rule: rev_induct) (auto simp add: new_Set_Nil new_Set_snoc Set_add_def)

lemma distinct_new_Set: "distinct (new_Set xs)"
  by (induction xs rule: rev_induct) (auto simp add: new_Set_Nil new_Set_snoc Set_add_def)

lemma first_index_less: "x \<in> set xs \<Longrightarrow> first_index xs x < length xs"
  by (induction xs) (auto simp add: first_index_def)

lemma first_index_append_in: "x \<in> set xs \<Longrightarrow> first_index (xs @ ys) x = first_index xs x"
  by (simp add: first_index_def)

lemma first_index_append_notin: "x \<notin> set xs \<Longrightarrow> first_index (xs @ [x]) x = length xs"
  by (induction xs) (auto simp add: first_index_def)

lemma sorted_new_Set:
  "sorted_wrt (\<lambda>x y. first_index xs x < first_index xs y) (new_Set xs)"
proof (induction xs rule: rev_induct)
  case Nil
  then show ?case by (simp add: new_Set_Nil)
next
  case (snoc a xs)
  have keep: "sorted_wrt (\<lambda>x y. first_index (xs @ [a]) x < first_index (xs @ [a]) y) (new_Set xs)"
    using snoc.IH
    by (rule sorted_wrt_mono_rel [rotated]) (simp add: set_new_Set first_index_append_in)
  show ?case
  proof (cases "a \<in> set xs")
    case True
    with keep show ?thesis by (simp add: new_Set_snoc Set_add_def set_new_Set)
  next
    case False
    then have "\<forall>x\<in>set (new_Set xs). first_index (xs @ [a]) x < first_index (xs @ [a]) a"
      by (simp add: set_new_Set first_index_append_in first_index_append_notin first_index_less)
    with keep False show ?thesis
      by (simp add: new_Set_snoc Set_add_def set_new_Set sorted_wrt_append)
  qed
qed

lemma new_Set_distinct_id: "distinct xs \<Longrightarrow> new_Set xs = xs"
  by (induction xs rule: rev_induct) (auto simp add: new_Set_Nil new_Set_snoc Set_add_def)

section \<open>Lemmas on the hooks\<close>

subsection \<open>push_files\<close>

lemma push_files_eq:
  "push_files fg p opt (images, c) =
     (images @ (case c (glob_key p opt) of None \<Rightarrow> fg p opt | Some files \<Rightarrow> files),
      snd (getCachedGlobSync fg c p opt))"
proof -
  obtain r c' where g: "getCachedGlobSync fg c p opt = (r, c')" by (cases "getCachedGlobSync fg c p opt")
  with getCached_fst [of fg c p opt]
  have "r = Some (case c (glob_key p opt) of None \<Rightarrow> fg p opt | Some files \<Rightarrow> files)" by simp
  with g show ?thesis by (simp add: push_files_def)
qed

lemma push_files_grows: "c \<subseteq>\<^sub>m snd (push_files fg p opt (images, c))"
  by (simp add: push_files_eq getCached_grows)

lemma push_files_replay:
  assumes "snd (push_files fg p opt (images, c)) \<subseteq>\<^sub>m cF"
  shows "push_files fg' p opt (images, cF) = (fst (push_files fg p opt (images, c)), cF)"
proof -
  from assms have le: "snd (getCachedGlobSync fg c p opt) \<subseteq>\<^sub>m cF" by (simp add: push_files_eq)
  have "getCachedGlobSync fg' cF p opt = (fst (getCachedGlobSync fg c p opt), cF)"
    using le by (rule getCached_replay)
  moreover have "fst (getCachedGlobSync fg c p opt) =
      Some (case c (glob_key p opt) of None \<Rightarrow> fg p opt | Some files \<Rightarrow> files)"
    by (rule getCached_fst)
  ultimately have "push_files fg' p opt (images, cF) =
      (images @ (case c (glob_key p opt) of None \<Rightarrow> fg p opt | Some files \<Rightarrow> files), cF)"
    by (simp add: push_files_def)
  moreover have "fst (push_files fg p opt (images, c)) =
      images @ (case c (glob_key p opt) of None \<Rightarrow> fg p opt | Some files \<Rightarrow> files)"
    by (simp add: push_files_eq)
  ultimately show ?thesis by simp
qed

lemma push_files_agrees:
  assumes "cache_agrees fg c"
  shows "fst (push_files fg p opt (images, c)) = images @ fg p opt"
    and "cache_agrees fg (snd (push_files fg p opt (images, c)))"
proof -
  from assms show "fst (push_files fg p opt (images, c)) = images @ fg p opt"
    by (auto simp add: push_files_eq cache_agrees_def split: option.splits)
  from assms show "cache_agrees fg (snd (push_files fg p opt (images, c)))"
    by (simp add: push_files_eq getCached_agrees_snd)
qed

subsection \<open>one target of transformIndexHtml\<close>

lemma dev_target_grows: "dev_target fg plugin flag p (images, c) = Inr acc' \<Longrightarrow> c \<subseteq>\<^sub>m snd acc'"
  by (auto simp add: dev_target_def push_files_grows split: if_splits sum.splits)

lemma dev_single_grows: "dev_single fg plugin flag p (images, c) = Inr acc' \<Longrightarrow> c \<subseteq>\<^sub>m snd acc'"
  by (auto simp add: dev_single_def push_files_grows split: if_splits sum.splits)

lemma prod_target_grows: "prod_target fg plugin flag p (images, c) = Inr acc' \<Longrightarrow> c \<subseteq>\<^sub>m snd acc'"
  by (auto simp add: prod_target_def push_files_grows split: if_splits sum.splits)

lemma push_files_replay':
  "push_files fg p opt (images, c) = (images', c') \<Longrightarrow> c' \<subseteq>\<^sub>m cF \<Longrightarrow>
   push_files fg' p opt (images, cF) = (images', cF)"
  using push_files_replay [of fg p opt images c cF fg'] by simp

lemma dev_target_replay:
  "dev_target fg plugin flag p (images, c) = Inr (images', c') \<Longrightarrow> c' \<subseteq>\<^sub>m cF \<Longrightarrow>
   dev_target fg' plugin flag p (images, cF) = Inr (images', cF)"
  by (auto simp add: dev_target_def split: if_splits sum.splits dest: push_files_replay')

lemma dev_single_replay:
  "dev_single fg plugin flag p (images, c) = Inr (images', c') \<Longrightarrow> c' \<subseteq>\<^sub>m cF \<Longrightarrow>
   dev_single fg' plugin flag p (images, cF) = Inr (images', cF)"
  by (auto simp add: dev_single_def split: if_splits sum.splits dest: push_files_replay')

lemma prod_target_replay:
  "prod_target fg plugin flag p (images, c) = Inr (images', c') \<Longrightarrow> c' \<subseteq>\<^sub>m cF \<Longrightarrow>
   prod_target fg' plugin flag p (images, cF) = Inr (images', cF)"
  by (auto simp add: prod_target_def split: if_splits sum.splits dest: push_files_replay')

lemma dev_item_grows: "dev_item fg options plugin item (images, c) = Inr acc' \<Longrightarrow> c \<subseteq>\<^sub>m snd acc'"
  by (auto simp add: dev_item_def split: Target.splits dest: dev_target_grows)

lemma prod_item_grows: "prod_item fg options plugin item (images, c) = Inr acc' \<Longrightarrow> c \<subseteq>\<^sub>m snd acc'"
  by (auto simp add: prod_item_def split: Target.splits dest: prod_target_grows)

lemma dev_item_replay:
  "dev_item fg options plugin item (images, c) = Inr (images', c') \<Longrightarrow> c' \<subseteq>\<^sub>m cF \<Longrightarrow>
   dev_item fg' options plugin item (images, cF) = Inr (images', cF)"
  by (auto simp add: dev_item_def split: Target.splits dest: dev_target_replay)

lemma prod_item_replay:
  "prod_item fg options plugin item (images, c) = Inr (images', c') \<Longrightarrow> c' \<subseteq>\<^sub>m cF \<Longrightarrow>
   prod_item fg' options plugin item (images, cF) = Inr (images', cF)"
  by (auto simp add: prod_item_def split: Target.splits dest: prod_target_replay)

subsection \<open>forEach\<close>

lemma forEach_grows:
  assumes step: "\<And>x images c acc'. f x (images, c) = Inr acc' \<Longrightarrow> c \<subseteq>\<^sub>m snd acc'"
  shows "forEach f xs (images, c) = Inr acc' \<Longrightarrow> c \<subseteq>\<^sub>m snd acc'"
proof (induction xs arbitrary: images c)
  case Nil
  then show ?case by auto
next
  case (Cons x xs)
  from Cons.prems obtain images1 c1 where
    s1: "f x (images, c) = Inr (images1, c1)" and rest: "forEach f xs (images1, c1) = Inr acc'"
    by (auto split: sum.splits)
  from step [OF s1] have "c \<subseteq>\<^sub>m c1" by simp
  moreover from Cons.IH [OF rest] have "c1 \<subseteq>\<^sub>m snd acc'" .
  ultimately show ?case by (rule map_le_trans)
qed

lemma forEach_replay:
  assumes grows: "\<And>x images c acc'. f x (images, c) = Inr acc' \<Longrightarrow> c \<subseteq>\<^sub>m snd acc'"
    and replay: "\<And>x images c images' c' cF. f x (images, c) = Inr (images', c') \<Longrightarrow> c' \<subseteq>\<^sub>m cF \<Longrightarrow>
                   g x (images, cF) = Inr (images', cF)"
  shows "forEach f xs (images, c) = Inr (images', c') \<Longrightarrow> c' \<subseteq>\<^sub>m cF \<Longrightarrow>
         forEach g xs (images, cF) = Inr (images', cF)"
proof (induction xs arbitrary: images c)
  case Nil
  then show ?case by auto
next
  case (Cons x xs)
  from Cons.prems(1) obtain images1 c1 where
    s1: "f x (images, c) = Inr (images1, c1)" and rest: "forEach f xs (images1, c1) = Inr (images', c')"
    by (auto split: sum.splits)
  have "c1 \<subseteq>\<^sub>m c'" using forEach_grows [of f xs images1 c1 "(images', c')"] grows rest by auto
  then have "c1 \<subseteq>\<^sub>m cF" using Cons.prems(2) by (rule map_le_trans)
  with s1 have "g x (images, cF) = Inr (images1, cF)" by (rule replay)
  moreover have "forEach g xs (images1, cF) = Inr (images', cF)"
    using rest Cons.prems(2) by (rule Cons.IH)
  ultimately show ?case by simp
qed

subsection \<open>the whole hook\<close>

lemma collect_images_replay:
  assumes "collect_images fg options plugin server c = Inr (images, c')" and "c' \<subseteq>\<^sub>m cF"
  shows "collect_images fg' options plugin server cF = Inr (images, cF)"
proof (cases "dirs options")
  case (Single s)
  show ?thesis
  proof (cases server)
    case True
    with assms Single have "dev_single fg plugin (publicDir_flag options) s ([], c) = Inr (images, c')"
      by (simp add: collect_images_def)
    then have "dev_single fg' plugin (publicDir_flag options) s ([], cF) = Inr (images, cF)"
      using assms(2) by (rule dev_single_replay)
    with True Single show ?thesis by (simp add: collect_images_def)
  next
    case False
    with assms Single obtain pub where
      p: "prod_target fg plugin (publicDir_flag options) s ([], c) = Inr (pub, c')"
      and i: "images = pub @ assets plugin"
      by (auto simp add: collect_images_def split: sum.splits)
    from p have "prod_target fg' plugin (publicDir_flag options) s ([], cF) = Inr (pub, cF)"
      using assms(2) by (rule prod_target_replay)
    with False Single i show ?thesis by (simp add: collect_images_def)
  qed
next
  case (Many items)
  show ?thesis
  proof (cases server)
    case True
    with assms Many have "forEach (dev_item fg options plugin) items ([], c) = Inr (images, c')"
      by (simp add: collect_images_def)
    then have "forEach (dev_item fg' options plugin) items ([], cF) = Inr (images, cF)"
      using assms(2) by (rule forEach_replay [rotated 2]) (auto dest: dev_item_grows dev_item_replay)
    with True Many show ?thesis by (simp add: collect_images_def)
  next
    case False
    with assms Many obtain pub where
      p: "forEach (prod_item fg options plugin) items ([], c) = Inr (pub, c')"
      and i: "images = pub @ assets plugin"
      by (auto simp add: collect_images_def split: sum.splits)
    from p have "forEach (prod_item fg' options plugin) items ([], cF) = Inr (pub, cF)"
      using assms(2) by (rule forEach_replay [rotated 2]) (auto dest: prod_item_grows prod_item_replay)
    with False Many i show ?thesis by (simp add: collect_images_def)
  qed
qed

lemma collect_images_grows:
  assumes "collect_images fg options plugin server c = Inr (images, c')"
  shows "c \<subseteq>\<^sub>m c'"
proof (cases "dirs options")
  case (Single s)
  with assms show ?thesis
    by (auto simp add: collect_images_def split: if_splits sum.splits
             dest: dev_single_grows prod_target_grows)
next
  case (Many items)
  show ?thesis
  proof (cases server)
    case True
    with assms Many have "forEach (dev_item fg options plugin) items ([], c) = Inr (images, c')"
      by (simp add: collect_images_def)
    then have "c \<subseteq>\<^sub>m snd (images, c')"
      by (rule forEach_grows [rotated]) (auto dest: dev_item_grows)
    then show ?thesis by simp
  next
    case False
    with assms Many obtain pub where
      p: "forEach (prod_item fg options plugin) items ([], c) = Inr (pub, c')"
      by (auto simp add: collect_images_def split: sum.splits)
    then have "c \<subseteq>\<^sub>m snd (pub, c')"
      by (rule forEach_grows [rotated]) (auto dest: prod_item_grows)
    then show ?thesis by simp
  qed
qed

lemma transform_replay:
  assumes "transformIndexHtml fg options plugin server c = Inr (images, c')" and "c' \<subseteq>\<^sub>m cF"
  shows "transformIndexHtml fg' options plugin server cF = Inr (images, cF)"
proof -
  from assms(1) obtain collected where
    col: "collect_images fg options plugin server c = Inr (collected, c')"
    and im: "images = new_Set collected"
    by (auto simp add: transformIndexHtml_def split: sum.splits)
  from col assms(2) have "collect_images fg' options plugin server cF = Inr (collected, cF)"
    by (rule collect_images_replay)
  with im show ?thesis by (simp add: transformIndexHtml_def)
qed

subsection \<open>totality\<close>

lemma forEach_total:
  assumes "\<And>x acc. \<exists>acc'. f x acc = Inr acc'"
  shows "\<exists>acc'. forEach f xs acc = Inr acc'"
proof (induction xs arbitrary: acc)
  case Nil
  show ?case by simp
next
  case (Cons x xs)
  from assms obtain acc1 where "f x acc = Inr acc1" by blast
  with Cons.IH [of acc1] show ?case by simp
qed

lemma collect_images_total:
  assumes "config plugin = Some rc"
  shows "\<exists>collected c'. collect_images fg options plugin server c = Inr (collected, c')"
proof -
  from assms have r: "read_publicDir plugin = Inr (config_publicDir rc)"
    by (simp add: read_publicDir_def)
  have dt: "\<And>flag p acc. \<exists>acc'. dev_target fg plugin flag p acc = Inr acc'"
    by (simp add: dev_target_def r)
  have pt: "\<And>flag p acc. \<exists>acc'. prod_target fg plugin flag p acc = Inr acc'"
    by (simp add: prod_target_def r)
  have ds: "\<And>flag p acc. \<exists>acc'. dev_single fg plugin flag p acc = Inr acc'"
    by (simp add: dev_single_def r)
  have di: "\<And>item acc. \<exists>acc'. dev_item fg options plugin item acc = Inr acc'"
  proof -
    fix item acc
    show "\<exists>acc'. dev_item fg options plugin item acc = Inr acc'"
      using dt [of "publicDir_flag options" _ acc] dt [of _ _ acc]
      by (cases item) (simp_all only: dev_item_def Target.case)
  qed
  have pi: "\<And>item acc. \<exists>acc'. prod_item fg options plugin item acc = Inr acc'"
  proof -
    fix item acc
    show "\<exists>acc'. prod_item fg options plugin item acc = Inr acc'"
      using pt [of "publicDir_flag options" _ acc] pt [of _ _ acc]
      by (cases item) (simp_all only: prod_item_def Target.case)
  qed
  have "\<exists>acc'. collect_images fg options plugin server c = Inr acc'"
  proof (cases "dirs options")
    case (Single s)
    from ds [of "publicDir_flag options" s "([], c)"] pt [of "publicDir_flag options" s "([], c)"]
    show ?thesis using Single by (auto simp add: collect_images_def)
  next
    case (Many items)
    from forEach_total [of "dev_item fg options plugin" items "([], c)"] di
    obtain a1 where a1: "forEach (dev_item fg options plugin) items ([], c) = Inr a1" by blast
    from forEach_total [of "prod_item fg options plugin" items "([], c)"] pi
    obtain a2 where a2: "forEach (prod_item fg options plugin) items ([], c) = Inr a2" by blast
    from a1 a2 Many show ?thesis by (cases a2) (auto simp add: collect_images_def)
  qed
  then show ?thesis by auto
qed

section \<open>Properties of the resolver and of the validator\<close>

subsection \<open>Deduplication and repeated resolution (C3)\<close>

text \<open>
  C3. Once the configuration is resolved, \<^verbatim>\<open>transformIndexHtml\<close> returns a list without
  duplicates that has exactly the collected URLs, ordered by their first occurrence among
  the collected URLs; and calling it again on the same file system, with the cache it
  left, returns the same list.
\<close>

theorem resolved_list_deduplicated:
  assumes "config plugin = Some rc"
  shows "\<exists>collected images c'.
           collect_images fg options plugin server c = Inr (collected, c') \<and>
           transformIndexHtml fg options plugin server c = Inr (images, c') \<and>
           distinct images \<and>
           set images = set collected \<and>
           sorted_wrt (\<lambda>x y. first_index collected x < first_index collected y) images \<and>
           transformIndexHtml fg options plugin server c' = Inr (images, c')"
proof -
  from collect_images_total [OF assms] obtain collected c' where
    col: "collect_images fg options plugin server c = Inr (collected, c')" by blast
  then have t: "transformIndexHtml fg options plugin server c = Inr (new_Set collected, c')"
    by (simp add: transformIndexHtml_def)
  have again: "transformIndexHtml fg options plugin server c' = Inr (new_Set collected, c')"
    using t by (rule transform_replay) simp
  from col t again show ?thesis
    by (intro exI conjI) (assumption, assumption, rule distinct_new_Set, rule set_new_Set,
        rule sorted_new_Set, assumption)
qed

theorem resolved_list_deduplicated_witness:
  "\<exists>c'. transformIndexHtml fs_ab opts_single plugin_ready True Map.empty = Inr ([''a.png'', ''b.png''], c') \<and>
        transformIndexHtml fs_ab opts_single plugin_ready True c' = Inr ([''a.png'', ''b.png''], c')"
proof -
  have c: "config plugin_ready = Some \<lparr>config_publicDir = ''/app/public''\<rparr>"
    by (simp add: plugin_ready_def)
  from resolved_list_deduplicated [OF c, of fs_ab opts_single True Map.empty]
  obtain images c' where
    t: "transformIndexHtml fs_ab opts_single plugin_ready True Map.empty = Inr (images, c')"
    and a: "transformIndexHtml fs_ab opts_single plugin_ready True c' = Inr (images, c')"
    by blast
  have "\<exists>c0. transformIndexHtml fs_ab opts_single plugin_ready True Map.empty = Inr ([''a.png'', ''b.png''], c0)"
    by (simp add: transformIndexHtml_def collect_images_def opts_single_def publicDir_flag_def
        dev_single_def push_files_def getCachedGlobSync_def Let_def fs_ab_def new_Set_def Set_add_def)
  with t have "images = [''a.png'', ''b.png'']" by auto
  with t a show ?thesis by blast
qed

subsection \<open>Lifetime of the memoised expansions (C8)\<close>

text \<open>
  C8, as the code has it. The cache is a module-level map that nothing clears: an expansion
  stays in it (the cache only grows), a second lookup of the same pattern and options returns
  the stored list whatever the file system \<open>fg'\<close> holds by then, and a later run of
  \<^verbatim>\<open>transformIndexHtml\<close>, started with the cache the first run left, returns the list of the
  first run on any file system. The list itself is rebuilt on each call, from the stored
  expansions.
\<close>

theorem expansions_outlive_the_pass:
  "c \<subseteq>\<^sub>m snd (getCachedGlobSync fg c pattern opt) \<and>
   getCachedGlobSync fg' (snd (getCachedGlobSync fg c pattern opt)) pattern opt =
     (fst (getCachedGlobSync fg c pattern opt), snd (getCachedGlobSync fg c pattern opt)) \<and>
   (\<forall>images c'. transformIndexHtml fg options plugin server c = Inr (images, c') \<longrightarrow>
       c \<subseteq>\<^sub>m c' \<and> transformIndexHtml fg' options plugin server c' = Inr (images, c'))"
proof (intro conjI allI impI)
  show "c \<subseteq>\<^sub>m snd (getCachedGlobSync fg c pattern opt)" by (rule getCached_grows)
  show "getCachedGlobSync fg' (snd (getCachedGlobSync fg c pattern opt)) pattern opt =
     (fst (getCachedGlobSync fg c pattern opt), snd (getCachedGlobSync fg c pattern opt))"
    by (rule getCached_replay) simp
next
  fix images c'
  assume t: "transformIndexHtml fg options plugin server c = Inr (images, c')"
  then obtain collected where "collect_images fg options plugin server c = Inr (collected, c')"
    by (auto simp add: transformIndexHtml_def split: sum.splits)
  then show "c \<subseteq>\<^sub>m c'" by (rule collect_images_grows)
  from t show "transformIndexHtml fg' options plugin server c' = Inr (images, c')"
    by (rule transform_replay) simp
qed

lemma transform_single_dev_eval:
  "transformIndexHtml fg opts_single plugin_ready True c =
     Inr (new_Set (case c ''src/assets/*.png-{}'' of None \<Rightarrow> fg ''src/assets/*.png'' None | Some files \<Rightarrow> files),
          snd (getCachedGlobSync fg c ''src/assets/*.png'' None))"
  by (simp add: transformIndexHtml_def collect_images_def opts_single_def publicDir_flag_def
        dev_single_def push_files_eq glob_key_def JSON_stringify_def)

theorem expansions_outlive_the_pass_witness:
  "\<exists>c'. transformIndexHtml fs_a opts_single plugin_ready True Map.empty = Inr ([''a.png''], c') \<and>
        transformIndexHtml fs_scenario_A opts_single plugin_ready True c' = Inr ([''a.png''], c')"
proof -
  let ?c' = "snd (getCachedGlobSync fs_a Map.empty ''src/assets/*.png'' None)"
  have t: "transformIndexHtml fs_a opts_single plugin_ready True Map.empty = Inr ([''a.png''], ?c')"
    by (simp add: transform_single_dev_eval fs_a_def new_Set_def Set_add_def)
  with expansions_outlive_the_pass [of Map.empty fs_a "''src/assets/*.png''" None fs_scenario_A opts_single plugin_ready True]
  have "transformIndexHtml fs_scenario_A opts_single plugin_ready True ?c' = Inr ([''a.png''], ?c')"
    by blast
  with t show ?thesis by blast
qed

theorem memo_only_within_pass_counterexample:
  "\<not> (\<forall>c'. transformIndexHtml fs_a opts_single plugin_ready True Map.empty = Inr ([''a.png''], c') \<longrightarrow>
         transformIndexHtml fs_scenario_A opts_single plugin_ready True c' =
         transformIndexHtml fs_scenario_A opts_single plugin_ready True Map.empty)"
proof
  let ?c' = "snd (getCachedGlobSync fs_a Map.empty ''src/assets/*.png'' None)"
  assume a: "\<forall>c'. transformIndexHtml fs_a opts_single plugin_ready True Map.empty = Inr ([''a.png''], c') \<longrightarrow>
         transformIndexHtml fs_scenario_A opts_single plugin_ready True c' =
         transformIndexHtml fs_scenario_A opts_single plugin_ready True Map.empty"
  have t: "transformIndexHtml fs_a opts_single plugin_ready True Map.empty = Inr ([''a.png''], ?c')"
    by (simp add: transform_single_dev_eval fs_a_def new_Set_def Set_add_def)
  with a have "transformIndexHtml fs_scenario_A opts_single plugin_ready True ?c' =
         transformIndexHtml fs_scenario_A opts_single plugin_ready True Map.empty" by blast
  then show False
    by (simp add: transform_single_dev_eval fs_a_def fs_scenario_A_def new_Set_def Set_add_def
        getCachedGlobSync_def glob_key_def JSON_stringify_def Let_def)
qed

subsection \<open>The asset accumulator (C10)\<close>

lemma push_matched_assets:
  "prefix (assets (fst w)) (assets (fst (push_matched fg p bundles w)))"
  by (cases w) (simp add: push_matched_def split: prod.splits)

lemma generateBundle_item_assets:
  "prefix (assets (fst w)) (assets (fst (generateBundle_item fg options bundles item w)))"
  by (cases item) (simp_all add: generateBundle_item_def push_matched_assets)

lemma generateBundle_fold_assets:
  "prefix (assets (fst w))
     (assets (fst (foldl (\<lambda>w item. generateBundle_item fg options bundles item w) w items)))"
proof (induction items arbitrary: w)
  case Nil
  show ?case by simp
next
  case (Cons item items)
  have "prefix (assets (fst w)) (assets (fst (generateBundle_item fg options bundles item w)))"
    by (rule generateBundle_item_assets)
  also have "prefix \<dots> (assets (fst (foldl (\<lambda>w item. generateBundle_item fg options bundles item w)
      (generateBundle_item fg options bundles item w) items)))"
    by (rule Cons.IH)
  finally show ?case by simp
qed

lemma generateBundle_assets:
  "prefix (assets (fst w)) (assets (fst (generateBundle fg options bundles w)))"
  by (cases "dirs options")
     (simp_all add: generateBundle_def push_matched_assets generateBundle_fold_assets)

lemma invoke_assets:
  "invoke options hook w = Inr w' \<Longrightarrow> prefix (assets (fst w)) (assets (fst w'))"
  by (cases hook)
     (auto simp add: invoke_def configResolved_def generateBundle_assets split: sum.splits)

lemma run_assets:
  "forEach (invoke options) hooks w = Inr w' \<Longrightarrow> prefix (assets (fst w)) (assets (fst w'))"
proof (induction hooks arbitrary: w)
  case Nil
  then show ?case by simp
next
  case (Cons hook hooks)
  from Cons.prems obtain w1 where
    s: "invoke options hook w = Inr w1" and r: "forEach (invoke options) hooks w1 = Inr w'"
    by (auto split: sum.splits)
  from s have "prefix (assets (fst w)) (assets (fst w1))" by (rule invoke_assets)
  also from r have "prefix \<dots> (assets (fst w'))" by (rule Cons.IH)
  finally show ?case .
qed

lemma prod_images_assets:
  assumes "transformIndexHtml fg options plugin False c = Inr (images, c')"
  shows "set (assets plugin) \<subseteq> set images"
proof -
  from assms obtain collected where
    col: "collect_images fg options plugin False c = Inr (collected, c')"
    and im: "images = new_Set collected"
    by (auto simp add: transformIndexHtml_def split: sum.splits)
  from col have "set (assets plugin) \<subseteq> set collected"
    by (auto simp add: collect_images_def split: sum.splits)
  with im show ?thesis by (simp add: set_new_Set)
qed

text \<open>
  C10. Over any run of hook invocations on one instance, \<^verbatim>\<open>assets\<close> only grows at its
  end: what it held before the run is a prefix of what it holds after. A production
  \<^verbatim>\<open>transformIndexHtml\<close> after the run returns a duplicate-free list that contains every
  collected asset.
\<close>

theorem assets_append_only:
  assumes "forEach (invoke options) hooks (plugin, c) = Inr (plugin', c')"
  shows "prefix (assets plugin) (assets plugin') \<and>
         (\<forall>fg images c''. transformIndexHtml fg options plugin' False c' = Inr (images, c'') \<longrightarrow>
            distinct images \<and> set (assets plugin') \<subseteq> set images)"
proof (intro conjI allI impI)
  from run_assets [OF assms] show "prefix (assets plugin) (assets plugin')" by simp
next
  fix fg images c''
  assume t: "transformIndexHtml fg options plugin' False c' = Inr (images, c'')"
  then show "set (assets plugin') \<subseteq> set images" by (rule prod_images_assets)
  from t show "distinct images"
    by (auto simp add: transformIndexHtml_def distinct_new_Set split: sum.splits)
qed

lemma generateBundle_single_eval:
  "generateBundle fg opts_single bundles (plugin, c) =
     (plugin\<lparr>assets := assets plugin @
         map fileName (filter (\<lambda>b. matchBundleWithFiles b (fst (getCachedGlobSync fg c ''src/assets/*.png'' None))) bundles)\<rparr>,
      snd (getCachedGlobSync fg c ''src/assets/*.png'' None))"
  by (simp add: generateBundle_def opts_single_def publicDir_flag_def push_matched_def
      collectMatchedFiles_def split: prod.splits)

theorem assets_append_only_witness:
  "\<exists>plugin' c'.
     forEach (invoke opts_single) [GenerateBundle fs_src [bundle_a], GenerateBundle fs_src [bundle_b]]
       (\<lparr>assets = [], config = None\<rparr>, Map.empty) = Inr (plugin', c') \<and>
     assets plugin' = [''assets/a.1a2b.png'', ''assets/b.3c4d.png''] \<and>
     prefix [] (assets plugin') \<and>
     transformIndexHtml fs_src opts_single plugin' False c' =
       Inr ([''assets/a.1a2b.png'', ''assets/b.3c4d.png''], c')"
proof -
  define w1 where "w1 = generateBundle fs_src opts_single [bundle_a] (\<lparr>assets = [], config = None\<rparr>, Map.empty)"
  define w2 where "w2 = generateBundle fs_src opts_single [bundle_b] w1"
  have run: "forEach (invoke opts_single) [GenerateBundle fs_src [bundle_a], GenerateBundle fs_src [bundle_b]]
       (\<lparr>assets = [], config = None\<rparr>, Map.empty) = Inr (fst w2, snd w2)"
    by (simp add: invoke_def w1_def w2_def)
  have e1: "w1 = (\<lparr>assets = [''assets/a.1a2b.png''], config = None\<rparr>,
                  [''src/assets/*.png-{}'' \<mapsto> [''src/assets/a.png'', ''src/assets/b.png'']])"
    by (simp add: w1_def generateBundle_single_eval getCachedGlobSync_def glob_key_def
        JSON_stringify_def Let_def fs_src_def bundle_a_def matchBundleWithFiles_def)
  have e2: "w2 = (\<lparr>assets = [''assets/a.1a2b.png'', ''assets/b.3c4d.png''], config = None\<rparr>,
                  [''src/assets/*.png-{}'' \<mapsto> [''src/assets/a.png'', ''src/assets/b.png'']])"
    by (simp add: w2_def e1 generateBundle_single_eval getCachedGlobSync_def glob_key_def
        JSON_stringify_def Let_def bundle_b_def matchBundleWithFiles_def)
  have t: "transformIndexHtml fs_src opts_single (fst w2) False (snd w2) =
       Inr ([''assets/a.1a2b.png'', ''assets/b.3c4d.png''], snd w2)"
    by (simp add: e2 transformIndexHtml_def collect_images_def opts_single_def publicDir_flag_def
        prod_target_def new_Set_def Set_add_def)
  from assets_append_only [OF run] have "prefix [] (assets (fst w2))" by simp
  with run t e2 show ?thesis by auto
qed

subsection \<open>Public-root targets without a public root (C5)\<close>

text \<open>
  C5 at the failing input: the option \<^verbatim>\<open>publicDir: true\<close> with a single string, on the
  development server of a project without public root (\<^verbatim>\<open>config.publicDir\<close> empty). The
  single-string branch expands the pattern with \<^verbatim>\<open>{ cwd: '' }\<close> and contributes what it
  finds; the same pattern as a one-element array, and the single string in a production
  build, contribute nothing.
\<close>

theorem dev_single_string_ignores_missing_public_root:
  "(\<exists>c'. transformIndexHtml fs_root opts_public_single plugin_no_public True Map.empty =
           Inr ([''images/a.png''], c')) \<and>
   (\<exists>c'. transformIndexHtml fs_root opts_public_array plugin_no_public True Map.empty = Inr ([], c')) \<and>
   (\<exists>c'. transformIndexHtml fs_root opts_public_single plugin_no_public False Map.empty = Inr ([], c'))"
  by (simp add: transformIndexHtml_def collect_images_def opts_public_single_def opts_public_array_def
      plugin_no_public_def publicDir_flag_def dev_single_def dev_item_def dev_target_def prod_target_def
      read_publicDir_def push_files_def getCachedGlobSync_def Let_def fs_root_def new_Set_def Set_add_def)

lemma missing_public_root_skips:
  assumes "config plugin = Some rc" and "config_publicDir rc = []"
  shows "fromPublicRoot options item \<Longrightarrow> dev_item fg options plugin item acc = Inr acc"
    and "fromPublicRoot options item \<Longrightarrow> prod_item fg options plugin item acc = Inr acc"
    and "publicDir_flag options \<Longrightarrow> prod_target fg plugin (publicDir_flag options) s acc = Inr acc"
  using assms
  by (cases item; simp add: fromPublicRoot_def dev_item_def prod_item_def dev_target_def prod_target_def read_publicDir_def)+

subsection \<open>Blank patterns and non-boolean flags (C9)\<close>

lemma trim_unicode: "trim [0xA0, 0x2003, 0xFEFF, 0x2028] = [] \<and> trim [0x20, 0x61, 0xA0] = [0x61]"
  by (simp add: trim_def is_space_def)

text \<open>
  C9 at the failing inputs: \<^verbatim>\<open>validateOptions\<close> accepts an object whose \<^verbatim>\<open>dir\<close> is blank,
  an object whose \<^verbatim>\<open>publicDir\<close> is a string, and a single blank string as \<^verbatim>\<open>dirs\<close>.
\<close>

theorem blank_patterns_accepted:
  "validateOptions [(''dirs'', JArr [JObj [(''dir'', JStr (code_units ''   '')), (''publicDir'', JBool False)]])] = Inr () \<and>
   validateOptions [(''dirs'', JArr [JObj [(''dir'', JStr (code_units ''src/*.png'')), (''publicDir'', JStr (code_units ''yes''))]])] = Inr () \<and>
   validateOptions [(''dirs'', JStr (code_units ''   ''))] = Inr () \<and>
   trim (code_units ''   '') = []"
  by (simp add: validateOptions_def collected_errors_def dirs_errors_def get_prop_def has_prop_def
      dirs_item_errors_def batchSize_errors_def timeout_errors_def trim_def is_space_def code_units_def)

subsection \<open>Fallback matching by name (C2)\<close>

lemma str_includes_sublist: "str_includes hay needle = sublist needle hay"
  by (induction hay) (simp_all add: sublist_Cons_right)

lemma str_includes_iff:
  "str_includes hay needle = (\<exists>pre post. hay = pre @ needle @ post)"
  by (simp add: str_includes_sublist sublist_def)

lemma collectMatched_agrees:
  assumes "cache_agrees fg c"
  shows "fst (collectMatchedFiles fg c p bundles opt) =
           map fileName (filter (\<lambda>b. matchBundleWithFiles b (Some (fg p opt))) bundles)"
    and "cache_agrees fg (snd (collectMatchedFiles fg c p bundles opt))"
proof -
  obtain r c' where g: "getCachedGlobSync fg c p opt = (r, c')" by (cases "getCachedGlobSync fg c p opt")
  with getCached_agrees_fst [OF assms, of p opt] getCached_agrees_snd [OF assms, of p opt]
  have "r = Some (fg p opt)" and "cache_agrees fg c'" by simp_all
  with g show "fst (collectMatchedFiles fg c p bundles opt) =
           map fileName (filter (\<lambda>b. matchBundleWithFiles b (Some (fg p opt))) bundles)"
    and "cache_agrees fg (snd (collectMatchedFiles fg c p bundles opt))"
    by (simp_all add: collectMatchedFiles_def)
qed

text \<open>
  C2, as the code has it. For an artifact without (or with an empty)
  \<^verbatim>\<open>originalFileName\<close>, the match holds exactly when the artifact's \<^verbatim>\<open>name\<close> (the text
  \<^verbatim>\<open>undefined\<close> when it has none) occurs inside one of the expanded paths: the name is
  the piece sought, the path is where it is sought. The match does not read
  \<^verbatim>\<open>fileName\<close>, so an artifact from any other directory with that name matches too, and
  a matching artifact's \<^verbatim>\<open>fileName\<close> is among the files collected for the target.
\<close>

theorem fallback_matches_name_inside_path:
  assumes "originalFileName bundle = None \<or> originalFileName bundle = Some []"
    and "cache_agrees fg c" and "bundle \<in> set bundles"
  shows "(matchBundleWithFiles bundle (Some (fg pattern None)) =
            (\<exists>file pre post. file \<in> set (fg pattern None) \<and> file = pre @ name_text bundle @ post)) \<and>
         matchBundleWithFiles (bundle\<lparr>fileName := other\<rparr>) (Some (fg pattern None)) =
            matchBundleWithFiles bundle (Some (fg pattern None)) \<and>
         (matchBundleWithFiles bundle (Some (fg pattern None)) \<longrightarrow>
            fileName bundle \<in> set (fst (collectMatchedFiles fg c pattern bundles None)))"
proof (intro conjI)
  from assms(1)
  have "matchBundleWithFiles bundle (Some (fg pattern None)) =
          (\<exists>file. file \<in> set (fg pattern None) \<and> str_includes file (name_text bundle))"
    by (auto simp add: matchBundleWithFiles_def list_ex_iff)
  then show "matchBundleWithFiles bundle (Some (fg pattern None)) =
            (\<exists>file pre post. file \<in> set (fg pattern None) \<and> file = pre @ name_text bundle @ post)"
    unfolding str_includes_iff by blast
  show "matchBundleWithFiles (bundle\<lparr>fileName := other\<rparr>) (Some (fg pattern None)) =
            matchBundleWithFiles bundle (Some (fg pattern None))"
    by (simp add: matchBundleWithFiles_def name_text_def)
  from assms(2,3)
  show "matchBundleWithFiles bundle (Some (fg pattern None)) \<longrightarrow>
            fileName bundle \<in> set (fst (collectMatchedFiles fg c pattern bundles None))"
    by (auto simp add: collectMatched_agrees)
qed

theorem fallback_matches_name_inside_path_witness:
  "matchBundleWithFiles bundle_other (Some [''src/assets/a.png'']) \<and>
   fst (collectMatchedFiles fs_one Map.empty ''src/assets/*.png'' [bundle_old, bundle_other] None) =
     [''assets/a.1a2b.png'', ''assets/a.9xZ.png'']"
proof -
  have o: "originalFileName bundle_other = None \<or> originalFileName bundle_other = Some []"
    by (simp add: bundle_other_def)
  have m: "bundle_other \<in> set [bundle_old, bundle_other]" by simp
  have f: "fs_one ''src/assets/*.png'' None = [''src/assets/a.png'']" by (simp add: fs_one_def)
  have "''src/assets/a.png'' \<in> set [''src/assets/a.png''] \<and>
        ''src/assets/a.png'' = ''src/assets/'' @ name_text bundle_other @ []"
    by (simp add: name_text_def bundle_other_def)
  then have "\<exists>file pre post. file \<in> set [''src/assets/a.png''] \<and> file = pre @ name_text bundle_other @ post"
    by blast
  with fallback_matches_name_inside_path [OF o cache_agrees_empty m, of fs_one "''src/assets/*.png''"]
  have "matchBundleWithFiles bundle_other (Some [''src/assets/a.png''])" by (simp only: f)
  moreover have "fst (collectMatchedFiles fs_one Map.empty ''src/assets/*.png'' [bundle_old, bundle_other] None) =
     [''assets/a.1a2b.png'', ''assets/a.9xZ.png'']"
    by (simp add: collectMatchedFiles_def getCachedGlobSync_def Let_def fs_one_def matchBundleWithFiles_def
        bundle_old_def bundle_other_def name_text_def)
  ultimately show ?thesis by simp
qed

theorem fallback_direction_counterexample:
  "matchBundleWithFiles bundle_old (Some [''src/assets/a.png'']) \<and>
   \<not> str_includes ''a.png'' ''src/assets/a.png'' \<and>
   str_includes ''data.png'' ''a.png'' \<and>
   \<not> matchBundleWithFiles bundle_data (Some [''a.png''])"
  by (simp add: matchBundleWithFiles_def bundle_old_def bundle_data_def name_text_def)

subsection \<open>Aggregated configuration errors (C4)\<close>

lemma IsDirOptions_not_null: "item \<noteq> JNull \<Longrightarrow> \<exists>ok. IsDirOptions item = Inr ok"
  by (cases item) auto

lemma dirs_item_errors_total:
  "item \<noteq> JNull \<Longrightarrow> \<exists>es. dirs_item_errors index item = Inr es"
  using IsDirOptions_not_null [of item]
  by (cases item) (auto simp add: dirs_item_errors_def)

lemma dirs_item_errors_bad:
  "(\<forall>s. item \<noteq> JStr s) \<Longrightarrow> IsDirOptions item = Inr False \<Longrightarrow>
   dirs_item_errors index item =
     Inr [''Param dirs['' @ show_nat index @ ''] must be have dir and publicDir property!'']"
  by (cases item) (simp_all add: dirs_item_errors_def)

lemma dirs_forEach_spec:
  assumes "JNull \<notin> set items"
  shows "\<exists>errs. dirs_forEach index items acc = Inr errs \<and> set acc \<subseteq> set errs \<and>
           (\<forall>i. i < length items \<and> (\<forall>s. items ! i \<noteq> JStr s) \<and> IsDirOptions (items ! i) = Inr False \<longrightarrow>
              (''Param dirs['' @ show_nat (index + i) @ ''] must be have dir and publicDir property!'') \<in> set errs)"
  using assms
proof (induction items arbitrary: index acc)
  case Nil
  then show ?case by simp
next
  case (Cons item items)
  then have "item \<noteq> JNull" by auto
  then obtain es where es: "dirs_item_errors index item = Inr es"
    using dirs_item_errors_total by blast
  from Cons.prems have "JNull \<notin> set items" by simp
  from Cons.IH [OF this, of "Suc index" "acc @ es"] obtain errs where
    run: "dirs_forEach (Suc index) items (acc @ es) = Inr errs"
    and sub: "set (acc @ es) \<subseteq> set errs"
    and rest: "\<forall>i. i < length items \<and> (\<forall>s. items ! i \<noteq> JStr s) \<and> IsDirOptions (items ! i) = Inr False \<longrightarrow>
              (''Param dirs['' @ show_nat (Suc index + i) @ ''] must be have dir and publicDir property!'') \<in> set errs"
    by blast
  have "\<forall>i. i < length (item # items) \<and> (\<forall>s. (item # items) ! i \<noteq> JStr s) \<and>
            IsDirOptions ((item # items) ! i) = Inr False \<longrightarrow>
              (''Param dirs['' @ show_nat (index + i) @ ''] must be have dir and publicDir property!'') \<in> set errs"
  proof (intro allI impI)
    fix i
    assume a: "i < length (item # items) \<and> (\<forall>s. (item # items) ! i \<noteq> JStr s) \<and>
            IsDirOptions ((item # items) ! i) = Inr False"
    show "(''Param dirs['' @ show_nat (index + i) @ ''] must be have dir and publicDir property!'') \<in> set errs"
    proof (cases i)
      case 0
      with a have "dirs_item_errors index item =
          Inr [''Param dirs['' @ show_nat index @ ''] must be have dir and publicDir property!'']"
        by (simp add: dirs_item_errors_bad)
      with es sub 0 show ?thesis by auto
    next
      case (Suc j)
      with a rest show ?thesis by simp
    qed
  qed
  with es run sub show ?case by auto
qed

text \<open>
  When no element of an array \<^verbatim>\<open>dirs\<close> is \<^verbatim>\<open>null\<close>, the validator runs to its end and
  collects one message for each violation: \<^verbatim>\<open>batchSize\<close> present and not a number or below
  1, \<^verbatim>\<open>timeout\<close> present and not a number or below 1000, \<^verbatim>\<open>dirs\<close> missing or falsy,
  \<^verbatim>\<open>dirs\<close> neither string nor array, and each array element that is neither a string nor an
  object with \<^verbatim>\<open>dir\<close> and \<^verbatim>\<open>publicDir\<close>. If there is any message, construction throws one
  Error whose text joins them all, and the cache is as it was; otherwise it returns the fresh
  instance.
\<close>

lemma errors_aggregated_without_null:
  assumes "\<forall>items. get_prop options ''dirs'' = JArr items \<longrightarrow> JNull \<notin> set items"
  shows "\<exists>errors. collected_errors options = Inr errors \<and>
     (has_prop options ''batchSize'' \<and> (\<forall>n. get_prop options ''batchSize'' = JNum n \<longrightarrow> num_less n 1) \<longrightarrow>
        ''BatchSize must be number and greater than 0!'' \<in> set errors) \<and>
     (has_prop options ''timeout'' \<and> (\<forall>n. get_prop options ''timeout'' = JNum n \<longrightarrow> num_less n 1000) \<longrightarrow>
        ''Timeout must be number and greater than 1000!'' \<in> set errors) \<and>
     (\<not> truthy (get_prop options ''dirs'') \<longrightarrow> ''Param dirs is required!'' \<in> set errors) \<and>
     (truthy (get_prop options ''dirs'') \<and> (\<forall>s. get_prop options ''dirs'' \<noteq> JStr s) \<and>
        (\<forall>items. get_prop options ''dirs'' \<noteq> JArr items) \<longrightarrow>
        ''Param dirs must be string or array!'' \<in> set errors) \<and>
     (\<forall>items i. get_prop options ''dirs'' = JArr items \<and> i < length items \<and>
        (\<forall>s. items ! i \<noteq> JStr s) \<and> IsDirOptions (items ! i) = Inr False \<longrightarrow>
        (''Param dirs['' @ show_nat i @ ''] must be have dir and publicDir property!'') \<in> set errors) \<and>
     (errors \<noteq> [] \<longrightarrow>
        VitePluginPreloadImages options globCache =
          (Inl (Error (''[vite-plugin-preload-images]: '' @ join '' '' errors)), globCache)) \<and>
     (errors = [] \<longrightarrow>
        VitePluginPreloadImages options globCache = (Inr \<lparr>assets = [], config = None\<rparr>, globCache))"
proof -
  let ?d = "get_prop options ''dirs''"
  have "\<exists>es. dirs_errors ?d = Inr es \<and>
     (\<not> truthy ?d \<longrightarrow> ''Param dirs is required!'' \<in> set es) \<and>
     (truthy ?d \<and> (\<forall>s. ?d \<noteq> JStr s) \<and> (\<forall>items. ?d \<noteq> JArr items) \<longrightarrow>
        ''Param dirs must be string or array!'' \<in> set es) \<and>
     (\<forall>items i. ?d = JArr items \<and> i < length items \<and>
        (\<forall>s. items ! i \<noteq> JStr s) \<and> IsDirOptions (items ! i) = Inr False \<longrightarrow>
        (''Param dirs['' @ show_nat i @ ''] must be have dir and publicDir property!'') \<in> set es)"
  proof (cases "\<exists>items. ?d = JArr items")
    case True
    then obtain items where d: "?d = JArr items" by blast
    with assms have "JNull \<notin> set items" by blast
    from dirs_forEach_spec [OF this, of 0 "[]"] obtain errs where
      "dirs_forEach 0 items [] = Inr errs"
      "\<forall>i. i < length items \<and> (\<forall>s. items ! i \<noteq> JStr s) \<and> IsDirOptions (items ! i) = Inr False \<longrightarrow>
              (''Param dirs['' @ show_nat (0 + i) @ ''] must be have dir and publicDir property!'') \<in> set errs"
      by blast
    with d show ?thesis by (simp add: dirs_errors_def)
  next
    case False
    then show ?thesis by (cases ?d) (simp_all add: dirs_errors_def)
  qed
  then obtain es where es: "dirs_errors ?d = Inr es"
    and e1: "\<not> truthy ?d \<longrightarrow> ''Param dirs is required!'' \<in> set es"
    and e2: "truthy ?d \<and> (\<forall>s. ?d \<noteq> JStr s) \<and> (\<forall>items. ?d \<noteq> JArr items) \<longrightarrow>
        ''Param dirs must be string or array!'' \<in> set es"
    and e3: "\<forall>items i. ?d = JArr items \<and> i < length items \<and>
        (\<forall>s. items ! i \<noteq> JStr s) \<and> IsDirOptions (items ! i) = Inr False \<longrightarrow>
        (''Param dirs['' @ show_nat i @ ''] must be have dir and publicDir property!'') \<in> set es"
    by blast
  let ?errors = "es @ batchSize_errors options @ timeout_errors options"
  have c: "collected_errors options = Inr ?errors" by (simp add: collected_errors_def es)
  have b: "has_prop options ''batchSize'' \<and> (\<forall>n. get_prop options ''batchSize'' = JNum n \<longrightarrow> num_less n 1) \<longrightarrow>
        ''BatchSize must be number and greater than 0!'' \<in> set ?errors"
    by (cases "get_prop options ''batchSize''") (simp_all add: batchSize_errors_def)
  have t: "has_prop options ''timeout'' \<and> (\<forall>n. get_prop options ''timeout'' = JNum n \<longrightarrow> num_less n 1000) \<longrightarrow>
        ''Timeout must be number and greater than 1000!'' \<in> set ?errors"
    by (cases "get_prop options ''timeout''") (simp_all add: timeout_errors_def)
  have v1: "?errors \<noteq> [] \<longrightarrow>
        VitePluginPreloadImages options globCache =
          (Inl (Error (''[vite-plugin-preload-images]: '' @ join '' '' ?errors)), globCache)"
    by (simp add: VitePluginPreloadImages_def validateOptions_def c)
  have v2: "?errors = [] \<longrightarrow>
        VitePluginPreloadImages options globCache = (Inr \<lparr>assets = [], config = None\<rparr>, globCache)"
    by (simp add: VitePluginPreloadImages_def validateOptions_def c)
  have sub: "set es \<subseteq> set ?errors" by simp
  from e1 sub have e1': "\<not> truthy ?d \<longrightarrow> ''Param dirs is required!'' \<in> set ?errors"
    by blast
  from e2 sub have e2': "truthy ?d \<and> (\<forall>s. ?d \<noteq> JStr s) \<and> (\<forall>items. ?d \<noteq> JArr items) \<longrightarrow>
        ''Param dirs must be string or array!'' \<in> set ?errors"
    by blast
  from e3 sub have e3': "\<forall>items i. ?d = JArr items \<and> i < length items \<and>
        (\<forall>s. items ! i \<noteq> JStr s) \<and> IsDirOptions (items ! i) = Inr False \<longrightarrow>
        (''Param dirs['' @ show_nat i @ ''] must be have dir and publicDir property!'') \<in> set ?errors"
    by blast
  from c b t e1' e2' e3' v1 v2 show ?thesis by blast
qed

lemma errors_aggregated_example:
  "VitePluginPreloadImages opts_all_wrong Map.empty =
     (Inl (Error (''[vite-plugin-preload-images]: Param dirs is required! '' @
                  ''BatchSize must be number and greater than 0! '' @
                  ''Timeout must be number and greater than 1000!'')), Map.empty)"
proof -
  have h: "\<forall>items. get_prop opts_all_wrong ''dirs'' = JArr items \<longrightarrow> JNull \<notin> set items"
    by (simp add: opts_all_wrong_def get_prop_def)
  have c: "collected_errors opts_all_wrong =
      Inr [''Param dirs is required!'', ''BatchSize must be number and greater than 0!'',
           ''Timeout must be number and greater than 1000!'']"
    by (simp add: collected_errors_def dirs_errors_def batchSize_errors_def timeout_errors_def
        get_prop_def has_prop_def opts_all_wrong_def)
  from errors_aggregated_without_null [OF h, of Map.empty] c
  show ?thesis by auto
qed

lemma show_nat_small:
  "show_nat 0 = ''0''" "show_nat (Suc 0) = ''1''" "show_nat (Suc (Suc 0)) = ''2''"
  "show_nat (Suc (Suc (Suc 0))) = ''3''"
  by code_simp+

text \<open>
  C4 at the failing input: with \<^verbatim>\<open>dirs: [null]\<close> and \<^verbatim>\<open>batchSize: 0\<close> the validator, and
  so the construction of the plugin, throws the TypeError of \<^verbatim>\<open>'dir' in null\<close> and reports
  no field. The same branch reports every other element that is not a target (a number,
  \<^verbatim>\<open>undefined\<close>, an array, a boolean) in the aggregated error, together with
  \<^verbatim>\<open>batchSize\<close>.
\<close>

theorem null_element_escapes_aggregation:
  "validateOptions [(''dirs'', JArr [JNull]), (''batchSize'', JNum (Fin 0))] = Inl TypeError \<and>
   VitePluginPreloadImages [(''dirs'', JArr [JNull]), (''batchSize'', JNum (Fin 0))] Map.empty =
     (Inl TypeError, Map.empty) \<and>
   validateOptions [(''dirs'', JArr [JNum (Fin 42), JUndefined, JArr [], JBool True]),
                    (''batchSize'', JNum (Fin 0))] =
     Inl (Error (''[vite-plugin-preload-images]: '' @
                 ''Param dirs[0] must be have dir and publicDir property! '' @
                 ''Param dirs[1] must be have dir and publicDir property! '' @
                 ''Param dirs[2] must be have dir and publicDir property! '' @
                 ''Param dirs[3] must be have dir and publicDir property! '' @
                 ''BatchSize must be number and greater than 0!''))"
  by (simp add: VitePluginPreloadImages_def validateOptions_def collected_errors_def dirs_errors_def
      get_prop_def has_prop_def dirs_item_errors_def batchSize_errors_def timeout_errors_def
      show_nat_small)

subsection \<open>Exact matching by source path (C1)\<close>

lemma getCached_fst_looked_up:
  "fst (getCachedGlobSync fg c p opt) = Some (looked_up fg c p opt)"
  by (simp add: getCached_fst looked_up_def)

lemma looked_up_getCached:
  "looked_up fg (snd (getCachedGlobSync fg c p opt)) p' opt' = looked_up fg c p' opt'"
proof (cases "glob_key p' opt' = glob_key p opt \<and> c (glob_key p opt) = None")
  case True
  then have "p' = p \<and> opt' = opt" by (blast dest: glob_key_inj)
  with True show ?thesis by (simp add: looked_up_def getCached_snd)
next
  case False
  then show ?thesis by (auto simp add: looked_up_def getCached_snd)
qed

lemma looked_up_agrees: "cache_agrees fg c \<Longrightarrow> looked_up fg c p opt = fg p opt"
  by (auto simp add: looked_up_def cache_agrees_def split: option.splits)

lemma collectMatched_looked_up:
  "collectMatchedFiles fg c p bundles opt =
     (map fileName (filter (\<lambda>b. matchBundleWithFiles b (Some (looked_up fg c p opt))) bundles),
      snd (getCachedGlobSync fg c p opt))"
proof -
  obtain r c' where g: "getCachedGlobSync fg c p opt = (r, c')" by (cases "getCachedGlobSync fg c p opt")
  with getCached_fst_looked_up [of fg c p opt] have "r = Some (looked_up fg c p opt)" by simp
  with g show ?thesis by (simp add: collectMatchedFiles_def)
qed

lemma push_matched_looked_up:
  "push_matched fg p bundles (plugin, c) =
     (plugin\<lparr>assets := assets plugin @
        map fileName (filter (\<lambda>b. matchBundleWithFiles b (Some (looked_up fg c p None))) bundles)\<rparr>,
      snd (getCachedGlobSync fg c p None))"
  by (simp add: push_matched_def collectMatched_looked_up)

lemma generateBundle_item_looked_up:
  assumes "\<forall>p opt. looked_up fg (snd w) p opt = looked_up fg c0 p opt"
  shows "assets (fst (generateBundle_item fg options bundles item w)) =
           assets (fst w) @
           (if \<not> fromPublicRoot options item
            then map fileName (filter (\<lambda>b. matchBundleWithFiles b (Some (looked_up fg c0 (pattern_of item) None))) bundles)
            else [])"
    and "\<forall>p opt. looked_up fg (snd (generateBundle_item fg options bundles item w)) p opt = looked_up fg c0 p opt"
    and "config (fst (generateBundle_item fg options bundles item w)) = config (fst w)"
proof -
  obtain plugin c where w: "w = (plugin, c)" by (cases w)
  with assms have l: "\<And>p opt. looked_up fg c p opt = looked_up fg c0 p opt" by simp
  show "assets (fst (generateBundle_item fg options bundles item w)) =
           assets (fst w) @
           (if \<not> fromPublicRoot options item
            then map fileName (filter (\<lambda>b. matchBundleWithFiles b (Some (looked_up fg c0 (pattern_of item) None))) bundles)
            else [])"
    by (cases item)
       (simp_all add: w generateBundle_item_def fromPublicRoot_def pattern_of_def push_matched_looked_up l)
  show "\<forall>p opt. looked_up fg (snd (generateBundle_item fg options bundles item w)) p opt = looked_up fg c0 p opt"
    by (cases item)
       (simp_all add: w generateBundle_item_def push_matched_looked_up looked_up_getCached l)
  show "config (fst (generateBundle_item fg options bundles item w)) = config (fst w)"
    by (cases item) (simp_all add: w generateBundle_item_def push_matched_looked_up)
qed

lemma generateBundle_fold_looked_up:
  "\<forall>p opt. looked_up fg (snd w) p opt = looked_up fg c0 p opt \<Longrightarrow>
   assets (fst (foldl (\<lambda>w item. generateBundle_item fg options bundles item w) w items)) =
     assets (fst w) @
     concat (map (\<lambda>t. map fileName (filter (\<lambda>b. matchBundleWithFiles b (Some (looked_up fg c0 (pattern_of t) None))) bundles))
              (filter (\<lambda>t. \<not> fromPublicRoot options t) items)) \<and>
   config (fst (foldl (\<lambda>w item. generateBundle_item fg options bundles item w) w items)) = config (fst w)"
proof (induction items arbitrary: w)
  case Nil
  then show ?case by simp
next
  case (Cons x xs)
  let ?w1 = "generateBundle_item fg options bundles x w"
  note s = generateBundle_item_looked_up [OF Cons.prems, of options bundles x]
  from Cons.IH [OF s(2)] s(1) s(3) show ?case by simp
qed

lemma generateBundle_looked_up_both:
  "assets (fst (generateBundle fg options bundles (plugin, c))) =
     assets plugin @
     concat (map (\<lambda>t. map fileName (filter (\<lambda>b. matchBundleWithFiles b (Some (looked_up fg c (pattern_of t) None))) bundles))
              (filter (\<lambda>t. \<not> fromPublicRoot options t) (declared_targets options))) \<and>
   config (fst (generateBundle fg options bundles (plugin, c))) = config plugin"
proof (cases "dirs options")
  case (Single s)
  then show ?thesis
    by (simp add: generateBundle_def declared_targets_def fromPublicRoot_def pattern_of_def
        push_matched_looked_up)
next
  case (Many items)
  from generateBundle_fold_looked_up [of fg "(plugin, c)" c options bundles items] Many
  show ?thesis by (simp add: generateBundle_def declared_targets_def)
qed

lemma generateBundle_looked_up:
  "assets (fst (generateBundle fg options bundles (plugin, c))) =
     assets plugin @
     concat (map (\<lambda>t. map fileName (filter (\<lambda>b. matchBundleWithFiles b (Some (looked_up fg c (pattern_of t) None))) bundles))
              (filter (\<lambda>t. \<not> fromPublicRoot options t) (declared_targets options)))"
  using generateBundle_looked_up_both [of fg options bundles plugin c] by blast

lemma generateBundle_config:
  "config (fst (generateBundle fg options bundles (plugin, c))) = config plugin"
  using generateBundle_looked_up_both [of fg options bundles plugin c] by blast

lemma prod_images_shape:
  assumes "transformIndexHtml fg options plugin False c = Inr (images, c')"
  shows "\<exists>pub. images = new_Set (pub @ assets plugin)"
  using assms
  by (auto simp add: transformIndexHtml_def collect_images_def split: sum.splits)

lemma prod_forEach_no_public:
  "\<forall>t\<in>set items. \<not> fromPublicRoot options t \<Longrightarrow>
   forEach (prod_item fg options plugin) items acc = Inr acc"
proof (induction items)
  case Nil
  show ?case by simp
next
  case (Cons x xs)
  then have "prod_item fg options plugin x acc = Inr acc"
    by (cases x) (simp_all add: prod_item_def prod_target_def fromPublicRoot_def)
  with Cons show ?case by simp
qed

lemma prod_no_public:
  assumes "\<forall>t\<in>set (declared_targets options). \<not> fromPublicRoot options t"
  shows "transformIndexHtml fg options plugin False c = Inr (new_Set (assets plugin), c)"
proof (cases "dirs options")
  case (Single s)
  with assms have "\<not> publicDir_flag options" by (simp add: declared_targets_def fromPublicRoot_def)
  with Single show ?thesis
    by (simp add: transformIndexHtml_def collect_images_def prod_target_def)
next
  case (Many items)
  with assms have "\<forall>t\<in>set items. \<not> fromPublicRoot options t" by (simp add: declared_targets_def)
  then have "forEach (prod_item fg options plugin) items ([], c) = Inr ([], c)"
    by (rule prod_forEach_no_public)
  with Many show ?thesis by (simp add: transformIndexHtml_def collect_images_def)
qed

lemma push_files_looked_up:
  "push_files fg p opt (images, c) = (images @ looked_up fg c p opt, snd (getCachedGlobSync fg c p opt))"
  by (simp add: push_files_eq looked_up_def)

lemma prod_item_looked_up:
  assumes "\<forall>p opt. looked_up fg c p opt = looked_up fg c0 p opt"
    and "prod_item fg options plugin item (images, c) = Inr (images', c')"
  shows "images' = images @
           (if fromPublicRoot options item
            then (case config plugin of
                    None \<Rightarrow> []
                  | Some rc \<Rightarrow>
                      if config_publicDir rc = [] then []
                      else looked_up fg c0 (pattern_of item) (Some (config_publicDir rc)))
            else []) \<and>
         (\<forall>p opt. looked_up fg c' p opt = looked_up fg c0 p opt)"
proof -
  have d: "prod_item fg options plugin item (images, c) =
      prod_target fg plugin (fromPublicRoot options item) (pattern_of item) (images, c)"
    by (cases item) (simp_all add: prod_item_def fromPublicRoot_def pattern_of_def)
  show ?thesis
  proof (cases "fromPublicRoot options item")
    case False
    with d assms show ?thesis by (simp add: prod_target_def)
  next
    case True
    show ?thesis
    proof (cases "config plugin")
      case None
      with d assms(2) True show ?thesis by (simp add: prod_target_def read_publicDir_def)
    next
      case (Some rc)
      show ?thesis
      proof (cases "config_publicDir rc = []")
        case True
        with d assms Some \<open>fromPublicRoot options item\<close> show ?thesis
          by (simp add: prod_target_def read_publicDir_def)
      next
        case False
        with d assms(2) Some True
        have "images' = images @ looked_up fg c (pattern_of item) (Some (config_publicDir rc))"
          and "c' = snd (getCachedGlobSync fg c (pattern_of item) (Some (config_publicDir rc)))"
          by (simp_all add: prod_target_def read_publicDir_def push_files_looked_up)
        with False Some True assms(1) show ?thesis
          by (simp add: looked_up_getCached)
      qed
    qed
  qed
qed

lemma prod_forEach_looked_up:
  "\<forall>p opt. looked_up fg c p opt = looked_up fg c0 p opt \<Longrightarrow>
   forEach (prod_item fg options plugin) items (images, c) = Inr (images', c') \<Longrightarrow>
   images' = images @
     concat (map (\<lambda>t. if fromPublicRoot options t
                      then (case config plugin of
                              None \<Rightarrow> []
                            | Some rc \<Rightarrow>
                                if config_publicDir rc = [] then []
                                else looked_up fg c0 (pattern_of t) (Some (config_publicDir rc)))
                      else []) items)"
proof (induction items arbitrary: images c)
  case Nil
  then show ?case by simp
next
  case (Cons x xs)
  from Cons.prems(2) obtain images1 c1 where
    s: "prod_item fg options plugin x (images, c) = Inr (images1, c1)"
    and r: "forEach (prod_item fg options plugin) xs (images1, c1) = Inr (images', c')"
    by (auto split: sum.splits)
  note one = prod_item_looked_up [OF Cons.prems(1) s]
  from one have l1: "\<forall>p opt. looked_up fg c1 p opt = looked_up fg c0 p opt" by blast
  from Cons.IH [OF l1 r] one show ?case by simp
qed

lemma prod_images_exact:
  assumes "transformIndexHtml fg options plugin False c = Inr (images, c')"
  shows "images =
     new_Set (concat (map (\<lambda>t. if fromPublicRoot options t
                               then (case config plugin of
                                       None \<Rightarrow> []
                                     | Some rc \<Rightarrow>
                                         if config_publicDir rc = [] then []
                                         else looked_up fg c (pattern_of t) (Some (config_publicDir rc)))
                               else []) (declared_targets options)) @
              assets plugin)"
proof (cases "dirs options")
  case (Single s)
  have "forEach (prod_item fg options plugin) [Str s] ([], c) =
      prod_target fg plugin (publicDir_flag options) s ([], c)"
    by (cases "prod_target fg plugin (publicDir_flag options) s ([], c)") (simp_all add: prod_item_def)
  with assms Single obtain pub where
    f: "forEach (prod_item fg options plugin) [Str s] ([], c) = Inr (pub, c')"
    and i: "images = new_Set (pub @ assets plugin)"
    by (auto simp add: transformIndexHtml_def collect_images_def split: sum.splits)
  from prod_forEach_looked_up [OF _ f, of c] i Single show ?thesis
    by (simp add: declared_targets_def)
next
  case (Many items)
  with assms obtain pub where
    f: "forEach (prod_item fg options plugin) items ([], c) = Inr (pub, c')"
    and i: "images = new_Set (pub @ assets plugin)"
    by (auto simp add: transformIndexHtml_def collect_images_def split: sum.splits)
  from prod_forEach_looked_up [OF _ f, of c] i Many show ?thesis
    by (simp add: declared_targets_def)
qed

lemma looked_up_generateBundle_item:
  "\<forall>p opt. looked_up fg (snd w) p opt = looked_up fg c0 p opt \<Longrightarrow>
   \<forall>p opt. looked_up fg (snd (generateBundle_item fg options bundles item w)) p opt = looked_up fg c0 p opt"
  by (rule generateBundle_item_looked_up(2))

lemma looked_up_generateBundle_fold:
  "\<forall>p opt. looked_up fg (snd w) p opt = looked_up fg c0 p opt \<Longrightarrow>
   \<forall>p opt. looked_up fg (snd (foldl (\<lambda>w item. generateBundle_item fg options bundles item w) w items)) p opt =
     looked_up fg c0 p opt"
proof (induction items arbitrary: w)
  case Nil
  then show ?case by simp
next
  case (Cons x xs)
  from Cons.prems have "\<forall>p opt. looked_up fg (snd (generateBundle_item fg options bundles x w)) p opt =
      looked_up fg c0 p opt"
    by (rule looked_up_generateBundle_item)
  then show ?case using Cons.IH by simp
qed

lemma looked_up_generateBundle:
  "looked_up fg (snd (generateBundle fg options bundles (plugin, c))) p opt = looked_up fg c p opt"
proof (cases "dirs options")
  case (Single s)
  then show ?thesis
    by (simp add: generateBundle_def push_matched_looked_up looked_up_getCached)
next
  case (Many items)
  from looked_up_generateBundle_fold [of fg "(plugin, c)" c options bundles items] Many
  show ?thesis by (simp add: generateBundle_def)
qed

text \<open>
  C1. In a production build, for a target that is not read from the public root and an
  artifact with a non-empty \<^verbatim>\<open>originalFileName\<close>: the artifact matches exactly when that
  source path is an element of the pattern's expansion, the list that \<^verbatim>\<open>getCachedGlobSync\<close>
  returns for the pattern (the fresh expansion when nothing is stored under its key).
  \<^verbatim>\<open>generateBundle\<close> appends to \<^verbatim>\<open>assets\<close>, target after target, the \<^verbatim>\<open>fileName\<close> of every
  matching artifact and nothing else, so on a match the artifact's \<^verbatim>\<open>fileName\<close> is among
  the assets, and in the list the production \<^verbatim>\<open>transformIndexHtml\<close> returns: that list
  is the public-root expansions of the targets read from the public root followed by the
  assets, later duplicates dropped; it exists once the configuration is resolved, and it is
  the deduplicated assets alone when no target is read from the public root.
\<close>

theorem exact_match_contributes_final_name:
  assumes "item \<in> set (declared_targets options)" and "\<not> fromPublicRoot options item"
    and "bundle \<in> set bundles" and "originalFileName bundle = Some orig" and "orig \<noteq> []"
  shows "matchBundleWithFiles bundle (Some (looked_up fg c (pattern_of item) None)) =
           (orig \<in> set (looked_up fg c (pattern_of item) None)) \<and>
         (c (glob_key (pattern_of item) None) = None \<longrightarrow>
            looked_up fg c (pattern_of item) None = fg (pattern_of item) None) \<and>
         assets (fst (generateBundle fg options bundles (plugin, c))) =
           assets plugin @
           concat (map (\<lambda>t. map fileName (filter
                          (\<lambda>b. matchBundleWithFiles b (Some (looked_up fg c (pattern_of t) None))) bundles))
                    (filter (\<lambda>t. \<not> fromPublicRoot options t) (declared_targets options))) \<and>
         (orig \<in> set (looked_up fg c (pattern_of item) None) \<longrightarrow>
            fileName bundle \<in> set (assets (fst (generateBundle fg options bundles (plugin, c))))) \<and>
         (\<forall>plugin' c' images c''.
            generateBundle fg options bundles (plugin, c) = (plugin', c') \<and>
            transformIndexHtml fg options plugin' False c' = Inr (images, c'') \<longrightarrow>
            images = new_Set (concat (map (\<lambda>t. if fromPublicRoot options t
                                      then (case config plugin of
                                              None \<Rightarrow> []
                                            | Some rc \<Rightarrow>
                                                if config_publicDir rc = [] then []
                                                else looked_up fg c (pattern_of t) (Some (config_publicDir rc)))
                                      else [])
                                       (declared_targets options)) @
                              assets plugin') \<and>
            (orig \<in> set (looked_up fg c (pattern_of item) None) \<longrightarrow> fileName bundle \<in> set images)) \<and>
         (\<forall>plugin' c'.
            generateBundle fg options bundles (plugin, c) = (plugin', c') \<and> config plugin \<noteq> None \<longrightarrow>
            (\<exists>images c''. transformIndexHtml fg options plugin' False c' = Inr (images, c''))) \<and>
         (\<forall>plugin' c'.
            generateBundle fg options bundles (plugin, c) = (plugin', c') \<and>
            (\<forall>t\<in>set (declared_targets options). \<not> fromPublicRoot options t) \<longrightarrow>
            transformIndexHtml fg options plugin' False c' = Inr (new_Set (assets plugin'), c')) \<and>
         fst (getCachedGlobSync fg c (pattern_of item) None) = Some (looked_up fg c (pattern_of item) None)"
proof -
  let ?L = "looked_up fg c (pattern_of item) None"
  let ?G = "generateBundle fg options bundles (plugin, c)"
  from assms(4,5) have m: "matchBundleWithFiles bundle (Some ?L) = (orig \<in> set ?L)"
    by (simp add: matchBundleWithFiles_def)
  have f: "c (glob_key (pattern_of item) None) = None \<longrightarrow> ?L = fg (pattern_of item) None"
    by (simp add: looked_up_def)
  note eq = generateBundle_looked_up [of fg options bundles plugin c]
  have g: "orig \<in> set ?L \<longrightarrow> fileName bundle \<in> set (assets (fst ?G))"
  proof
    assume "orig \<in> set ?L"
    with m assms(1,2,3) show "fileName bundle \<in> set (assets (fst ?G))"
      by (subst eq) auto
  qed
  have t: "\<forall>plugin' c' images c''.
            ?G = (plugin', c') \<and> transformIndexHtml fg options plugin' False c' = Inr (images, c'') \<longrightarrow>
            images = new_Set (concat (map (\<lambda>t. if fromPublicRoot options t
                                      then (case config plugin of
                                              None \<Rightarrow> []
                                            | Some rc \<Rightarrow>
                                                if config_publicDir rc = [] then []
                                                else looked_up fg c (pattern_of t) (Some (config_publicDir rc)))
                                      else [])
                                       (declared_targets options)) @
                              assets plugin') \<and>
            (orig \<in> set ?L \<longrightarrow> fileName bundle \<in> set images)"
  proof (intro allI impI)
    fix plugin' c' images c''
    assume a: "?G = (plugin', c') \<and> transformIndexHtml fg options plugin' False c' = Inr (images, c'')"
    then have tr: "transformIndexHtml fg options plugin' False c' = Inr (images, c'')" by simp
    from a have c': "c' = snd ?G" and p': "plugin' = fst ?G" by simp_all
    have lk: "\<And>p opt. looked_up fg c' p opt = looked_up fg c p opt"
      unfolding c' by (rule looked_up_generateBundle)
    have cf: "config plugin' = config plugin"
      unfolding p' by (rule generateBundle_config)
    from a g have "orig \<in> set ?L \<longrightarrow> fileName bundle \<in> set (assets plugin')" by simp
    with prod_images_assets [OF tr] prod_images_exact [OF tr]
    show "images = new_Set (concat (map (\<lambda>t. if fromPublicRoot options t
                                      then (case config plugin of
                                              None \<Rightarrow> []
                                            | Some rc \<Rightarrow>
                                                if config_publicDir rc = [] then []
                                                else looked_up fg c (pattern_of t) (Some (config_publicDir rc)))
                                      else [])
                                       (declared_targets options)) @
                              assets plugin') \<and>
            (orig \<in> set ?L \<longrightarrow> fileName bundle \<in> set images)"
      by (simp only: lk cf) blast
  qed
  have tot: "\<forall>plugin' c'. ?G = (plugin', c') \<and> config plugin \<noteq> None \<longrightarrow>
            (\<exists>images c''. transformIndexHtml fg options plugin' False c' = Inr (images, c''))"
  proof (intro allI impI)
    fix plugin' c'
    assume a: "?G = (plugin', c') \<and> config plugin \<noteq> None"
    with generateBundle_config [of fg options bundles plugin c]
    obtain rc where "config plugin' = Some rc" by auto
    from collect_images_total [OF this, of fg options False c']
    show "\<exists>images c''. transformIndexHtml fg options plugin' False c' = Inr (images, c'')"
      by (auto simp add: transformIndexHtml_def)
  qed
  have np: "\<forall>plugin' c'. ?G = (plugin', c') \<and>
            (\<forall>t\<in>set (declared_targets options). \<not> fromPublicRoot options t) \<longrightarrow>
            transformIndexHtml fg options plugin' False c' = Inr (new_Set (assets plugin'), c')"
    by (simp add: prod_no_public)
  have lk: "fst (getCachedGlobSync fg c (pattern_of item) None) = Some ?L"
    by (rule getCached_fst_looked_up)
  from m f eq g t tot np lk show ?thesis by (intro conjI)
qed

theorem exact_match_contributes_final_name_witness:
  "matchBundleWithFiles bundle_a (Some [''src/assets/a.png'', ''src/assets/b.png'']) \<and>
   \<not> matchBundleWithFiles bundle_c (Some [''src/assets/a.png'', ''src/assets/b.png'']) \<and>
   assets (fst (generateBundle fs_src opts_mixed [bundle_a, bundle_c] (plugin_ready, Map.empty))) =
     [''assets/a.1a2b.png''] \<and>
   (\<exists>images c''.
      transformIndexHtml fs_src opts_mixed
        (fst (generateBundle fs_src opts_mixed [bundle_a, bundle_c] (plugin_ready, Map.empty))) False
        (snd (generateBundle fs_src opts_mixed [bundle_a, bundle_c] (plugin_ready, Map.empty))) =
        Inr (images, c'') \<and>
      ''assets/a.1a2b.png'' \<in> set images)"
proof -
  let ?G = "generateBundle fs_src opts_mixed [bundle_a, bundle_c] (plugin_ready, Map.empty)"
  have t: "Str ''src/assets/*.png'' \<in> set (declared_targets opts_mixed)"
    by (simp add: declared_targets_def opts_mixed_def)
  have n: "\<not> fromPublicRoot opts_mixed (Str ''src/assets/*.png'')"
    by (simp add: fromPublicRoot_def publicDir_flag_def opts_mixed_def)
  have b: "bundle_a \<in> set [bundle_a, bundle_c]" by simp
  have o: "originalFileName bundle_a = Some ''src/assets/a.png''" by (simp add: bundle_a_def)
  have ne: "''src/assets/a.png'' \<noteq> []" by simp
  have l: "looked_up fs_src Map.empty (pattern_of (Str ''src/assets/*.png'')) None =
      [''src/assets/a.png'', ''src/assets/b.png'']"
    by (simp add: looked_up_def fs_src_def)
  have mc: "\<not> matchBundleWithFiles bundle_c (Some [''src/assets/a.png'', ''src/assets/b.png''])"
    by (simp add: matchBundleWithFiles_def bundle_c_def)
  have cfg: "config plugin_ready \<noteq> None" by (simp add: plugin_ready_def)
  note th = exact_match_contributes_final_name [OF t n b o ne, of fs_src Map.empty plugin_ready]
  have ma: "matchBundleWithFiles bundle_a (Some [''src/assets/a.png'', ''src/assets/b.png''])"
    using th [THEN conjunct1] by (simp only: l) simp
  have "assets (fst ?G) =
      assets plugin_ready @
      concat (map (\<lambda>t. map fileName (filter
                     (\<lambda>b. matchBundleWithFiles b (Some (looked_up fs_src Map.empty (pattern_of t) None)))
                     [bundle_a, bundle_c]))
               (filter (\<lambda>t. \<not> fromPublicRoot opts_mixed t) (declared_targets opts_mixed)))"
    by (rule th [THEN conjunct2, THEN conjunct2, THEN conjunct1])
  then have as: "assets (fst ?G) = [''assets/a.1a2b.png'']"
    by (simp add: plugin_ready_def declared_targets_def opts_mixed_def fromPublicRoot_def
        publicDir_flag_def pattern_of_def looked_up_def fs_src_def matchBundleWithFiles_def
        bundle_a_def bundle_c_def)
  have g: "?G = (fst ?G, snd ?G)" by simp
  from th [THEN conjunct2, THEN conjunct2, THEN conjunct2, THEN conjunct2, THEN conjunct2, THEN conjunct1]
    g cfg
  obtain images c'' where
    tr: "transformIndexHtml fs_src opts_mixed (fst ?G) False (snd ?G) = Inr (images, c'')"
    by blast
  from th [THEN conjunct2, THEN conjunct2, THEN conjunct2, THEN conjunct2, THEN conjunct1] g tr
  have "''src/assets/a.png'' \<in> set (looked_up fs_src Map.empty (pattern_of (Str ''src/assets/*.png'')) None)
      \<longrightarrow> fileName bundle_a \<in> set images"
    by blast
  then have "''assets/a.1a2b.png'' \<in> set images" by (simp add: l bundle_a_def)
  with ma mc as tr show ?thesis by blast
qed

subsection \<open>Development expansion from the source root (C6)\<close>

lemma dev_item_no_public:
  assumes "\<not> fromPublicRoot options item"
  shows "dev_item fg options plugin item (images, c) =
           Inr (images @ looked_up fg c (pattern_of item) None,
                snd (getCachedGlobSync fg c (pattern_of item) None))"
  using assms
  by (cases item)
     (simp_all add: dev_item_def dev_target_def fromPublicRoot_def pattern_of_def push_files_looked_up)

lemma dev_item_looked_up:
  assumes "\<forall>p opt. looked_up fg c p opt = looked_up fg c0 p opt"
    and "dev_item fg options plugin item (images, c) = Inr (images', c')"
  shows "images' = images @
           (if fromPublicRoot options item
            then (case config plugin of
                    None \<Rightarrow> []
                  | Some rc \<Rightarrow>
                      if config_publicDir rc = [] then []
                      else looked_up fg c0 (pattern_of item) (Some (config_publicDir rc)))
            else looked_up fg c0 (pattern_of item) None) \<and>
         (\<forall>p opt. looked_up fg c' p opt = looked_up fg c0 p opt)"
proof (cases "fromPublicRoot options item")
  case False
  from dev_item_no_public [OF False, of fg plugin images c] assms(2)
  have "images' = images @ looked_up fg c (pattern_of item) None"
    and "c' = snd (getCachedGlobSync fg c (pattern_of item) None)" by simp_all
  with False assms(1) show ?thesis by (simp add: looked_up_getCached)
next
  case True
  then have d: "dev_item fg options plugin item (images, c) =
      dev_target fg plugin True (pattern_of item) (images, c)"
    by (cases item) (simp_all add: dev_item_def fromPublicRoot_def pattern_of_def)
  show ?thesis
  proof (cases "config plugin")
    case None
    with d assms(2) show ?thesis by (simp add: dev_target_def read_publicDir_def)
  next
    case (Some rc)
    show ?thesis
    proof (cases "config_publicDir rc = []")
      case True
      with d assms Some \<open>fromPublicRoot options item\<close> show ?thesis
        by (simp add: dev_target_def read_publicDir_def)
    next
      case False
      with d assms(2) Some
      have "images' = images @ looked_up fg c (pattern_of item) (Some (config_publicDir rc))"
        and "c' = snd (getCachedGlobSync fg c (pattern_of item) (Some (config_publicDir rc)))"
        by (simp_all add: dev_target_def read_publicDir_def push_files_looked_up)
      with False Some \<open>fromPublicRoot options item\<close> assms(1) show ?thesis
        by (simp add: looked_up_getCached)
    qed
  qed
qed

lemma dev_forEach_looked_up:
  "\<forall>p opt. looked_up fg c p opt = looked_up fg c0 p opt \<Longrightarrow>
   forEach (dev_item fg options plugin) items (images, c) = Inr (images', c') \<Longrightarrow>
   images' = images @
     concat (map (\<lambda>t. if fromPublicRoot options t
                      then (case config plugin of
                              None \<Rightarrow> []
                            | Some rc \<Rightarrow>
                                if config_publicDir rc = [] then []
                                else looked_up fg c0 (pattern_of t) (Some (config_publicDir rc)))
                      else looked_up fg c0 (pattern_of t) None) items)"
proof (induction items arbitrary: images c)
  case Nil
  then show ?case by simp
next
  case (Cons x xs)
  from Cons.prems(2) obtain images1 c1 where
    s: "dev_item fg options plugin x (images, c) = Inr (images1, c1)"
    and r: "forEach (dev_item fg options plugin) xs (images1, c1) = Inr (images', c')"
    by (auto split: sum.splits)
  note one = dev_item_looked_up [OF Cons.prems(1) s]
  from one have l1: "\<forall>p opt. looked_up fg c1 p opt = looked_up fg c0 p opt" by blast
  from Cons.IH [OF l1 r] one show ?case by simp
qed

lemma dev_forEach_no_public:
  "\<forall>t\<in>set items. \<not> fromPublicRoot options t \<Longrightarrow>
   \<forall>p opt. looked_up fg c p opt = looked_up fg c0 p opt \<Longrightarrow>
   \<exists>c'. forEach (dev_item fg options plugin) items (images, c) =
          Inr (images @ concat (map (\<lambda>t. looked_up fg c0 (pattern_of t) None) items), c')"
proof (induction items arbitrary: images c)
  case Nil
  then show ?case by simp
next
  case (Cons x xs)
  from Cons.prems(1) have nx: "\<not> fromPublicRoot options x"
    and rest: "\<forall>t\<in>set xs. \<not> fromPublicRoot options t" by simp_all
  let ?c1 = "snd (getCachedGlobSync fg c (pattern_of x) None)"
  have s: "dev_item fg options plugin x (images, c) = Inr (images @ looked_up fg c (pattern_of x) None, ?c1)"
    using nx by (rule dev_item_no_public)
  from Cons.prems(2) have l1: "\<forall>p opt. looked_up fg ?c1 p opt = looked_up fg c0 p opt"
    by (simp add: looked_up_getCached)
  have "\<exists>c'. forEach (dev_item fg options plugin) xs (images @ looked_up fg c (pattern_of x) None, ?c1) =
          Inr ((images @ looked_up fg c (pattern_of x) None) @
               concat (map (\<lambda>t. looked_up fg c0 (pattern_of t) None) xs), c')"
    using rest l1 by (rule Cons.IH)
  with s Cons.prems(2) show ?case by simp
qed

text \<open>
  C6, as the code has it. On the development server, a target that is not read from the
  public root (an object with \<^verbatim>\<open>publicDir: false\<close>, or a string while the global
  \<^verbatim>\<open>publicDir\<close> is false or left out) is expanded with the options \<^verbatim>\<open>{}\<close>, and its
  expansion, the list that \<^verbatim>\<open>getCachedGlobSync\<close> returns for the pattern (the fresh
  expansion when nothing is stored under its key), is appended to the images. The list
  that \<^verbatim>\<open>transformIndexHtml\<close> returns is the concatenation, in the order of the targets and
  with later duplicates dropped, of these expansions and of the public-root expansions of
  the other targets (nothing for such a target of an array when the project has no public
  root); when no target is read from the public root the hook returns whether or not the
  configuration is resolved. In an array, a string is handled as the object with its
  pattern and the global \<^verbatim>\<open>publicDir\<close>.
\<close>

theorem dev_expands_from_source_root:
  "dev_item fg options plugin (Str s) acc =
     dev_item fg options plugin (DirOptions s (publicDir_flag options)) acc \<and>
   (\<not> fromPublicRoot options item \<longrightarrow>
      dev_item fg options plugin item (images, c) =
        Inr (images @ looked_up fg c (pattern_of item) None,
             snd (getCachedGlobSync fg c (pattern_of item) None))) \<and>
   (c (glob_key (pattern_of item) None) = None \<longrightarrow>
      looked_up fg c (pattern_of item) None = fg (pattern_of item) None) \<and>
   (\<forall>resolved c'.
      transformIndexHtml fg options plugin True c = Inr (resolved, c') \<longrightarrow>
      resolved =
        new_Set (concat (map (\<lambda>t. if fromPublicRoot options t
                                then (case config plugin of
                                        None \<Rightarrow> []
                                      | Some rc \<Rightarrow>
                                          if config_publicDir rc = [] \<and>
                                             (case dirs options of Single s \<Rightarrow> False | Many items \<Rightarrow> True)
                                          then []
                                          else looked_up fg c (pattern_of t) (Some (config_publicDir rc)))
                                else looked_up fg c (pattern_of t) None)
                          (declared_targets options)))) \<and>
   ((\<forall>t\<in>set (declared_targets options). \<not> fromPublicRoot options t) \<longrightarrow>
      (\<exists>c'. transformIndexHtml fg options plugin True c =
              Inr (new_Set (concat (map (\<lambda>t. looked_up fg c (pattern_of t) None)
                                      (declared_targets options))), c'))) \<and>
   fst (getCachedGlobSync fg c (pattern_of item) None) = Some (looked_up fg c (pattern_of item) None)"
proof (intro conjI allI impI)
  show "fst (getCachedGlobSync fg c (pattern_of item) None) = Some (looked_up fg c (pattern_of item) None)"
    by (rule getCached_fst_looked_up)
next
  show "dev_item fg options plugin (Str s) acc =
     dev_item fg options plugin (DirOptions s (publicDir_flag options)) acc"
    by (simp add: dev_item_def)
next
  assume "\<not> fromPublicRoot options item"
  then show "dev_item fg options plugin item (images, c) =
        Inr (images @ looked_up fg c (pattern_of item) None,
             snd (getCachedGlobSync fg c (pattern_of item) None))"
    by (rule dev_item_no_public)
next
  assume "c (glob_key (pattern_of item) None) = None"
  then show "looked_up fg c (pattern_of item) None = fg (pattern_of item) None"
    by (simp add: looked_up_def)
next
  fix resolved c'
  assume t: "transformIndexHtml fg options plugin True c = Inr (resolved, c')"
  show "resolved =
        new_Set (concat (map (\<lambda>t. if fromPublicRoot options t
                                then (case config plugin of
                                        None \<Rightarrow> []
                                      | Some rc \<Rightarrow>
                                          if config_publicDir rc = [] \<and>
                                             (case dirs options of Single s \<Rightarrow> False | Many items \<Rightarrow> True)
                                          then []
                                          else looked_up fg c (pattern_of t) (Some (config_publicDir rc)))
                                else looked_up fg c (pattern_of t) None)
                          (declared_targets options)))"
  proof (cases "dirs options")
    case (Single s)
    show ?thesis
    proof (cases "publicDir_flag options")
      case False
      with t Single have "resolved = new_Set (looked_up fg c s None)"
        by (auto simp add: transformIndexHtml_def collect_images_def dev_single_def push_files_looked_up)
      with Single False show ?thesis
        by (simp add: declared_targets_def fromPublicRoot_def pattern_of_def)
    next
      case True
      show ?thesis
      proof (cases "config plugin")
        case None
        with t Single True show ?thesis
          by (simp add: transformIndexHtml_def collect_images_def dev_single_def read_publicDir_def)
      next
        case (Some rc)
        with t Single True have "resolved = new_Set (looked_up fg c s (Some (config_publicDir rc)))"
          by (auto simp add: transformIndexHtml_def collect_images_def dev_single_def read_publicDir_def
              push_files_looked_up)
        with Single True Some show ?thesis
          by (simp add: declared_targets_def fromPublicRoot_def pattern_of_def)
      qed
    qed
  next
    case (Many items)
    with t obtain collected where
      f: "forEach (dev_item fg options plugin) items ([], c) = Inr (collected, c')"
      and r: "resolved = new_Set collected"
      by (auto simp add: transformIndexHtml_def collect_images_def split: sum.splits)
    from dev_forEach_looked_up [OF _ f, of c]
    have "collected = concat (map (\<lambda>t. if fromPublicRoot options t
                      then (case config plugin of
                              None \<Rightarrow> []
                            | Some rc \<Rightarrow>
                                if config_publicDir rc = [] then []
                                else looked_up fg c (pattern_of t) (Some (config_publicDir rc)))
                      else looked_up fg c (pattern_of t) None) items)"
      by simp
    moreover have "(\<lambda>t. if fromPublicRoot options t
                      then (case config plugin of
                              None \<Rightarrow> []
                            | Some rc \<Rightarrow>
                                if config_publicDir rc = [] then []
                                else looked_up fg c (pattern_of t) (Some (config_publicDir rc)))
                      else looked_up fg c (pattern_of t) None) =
                   (\<lambda>t. if fromPublicRoot options t
                                then (case config plugin of
                                        None \<Rightarrow> []
                                      | Some rc \<Rightarrow>
                                          if config_publicDir rc = [] \<and>
                                             (case dirs options of Single s \<Rightarrow> False | Many items \<Rightarrow> True)
                                          then []
                                          else looked_up fg c (pattern_of t) (Some (config_publicDir rc)))
                                else looked_up fg c (pattern_of t) None)"
      using Many by (auto simp add: fun_eq_iff split: option.splits)
    ultimately show ?thesis
      using r Many by (simp only: declared_targets_def Dirs.case)
  qed
next
  assume all: "\<forall>t\<in>set (declared_targets options). \<not> fromPublicRoot options t"
  show "\<exists>c'. transformIndexHtml fg options plugin True c =
              Inr (new_Set (concat (map (\<lambda>t. looked_up fg c (pattern_of t) None)
                                      (declared_targets options))), c')"
  proof (cases "dirs options")
    case (Single s)
    with all have "\<not> publicDir_flag options" by (simp add: declared_targets_def fromPublicRoot_def)
    with Single show ?thesis
      by (simp add: transformIndexHtml_def collect_images_def dev_single_def push_files_looked_up
          declared_targets_def pattern_of_def)
  next
    case (Many items)
    with all have "\<forall>t\<in>set items. \<not> fromPublicRoot options t" by (simp add: declared_targets_def)
    from dev_forEach_no_public [OF this, of fg c c plugin "[]"] obtain c' where
      "forEach (dev_item fg options plugin) items ([], c) =
         Inr (concat (map (\<lambda>t. looked_up fg c (pattern_of t) None) items), c')"
      by auto
    with Many show ?thesis
      by (simp add: transformIndexHtml_def collect_images_def declared_targets_def)
  qed
qed

theorem dev_expands_from_source_root_witness:
  "\<exists>c'. transformIndexHtml fs_scenario_A opts_single \<lparr>assets = [], config = None\<rparr> True Map.empty =
          Inr ([''a.png'', ''b.png''], c')"
proof -
  have all: "\<forall>t\<in>set (declared_targets opts_single). \<not> fromPublicRoot opts_single t"
    by (simp add: declared_targets_def fromPublicRoot_def publicDir_flag_def opts_single_def)
  have e: "new_Set (concat (map (\<lambda>t. looked_up fs_scenario_A Map.empty (pattern_of t) None)
                             (declared_targets opts_single))) = [''a.png'', ''b.png'']"
    by (simp add: declared_targets_def opts_single_def looked_up_def fs_scenario_A_def
        new_Set_def Set_add_def)
  from dev_expands_from_source_root
         [where options = opts_single and fg = fs_scenario_A
            and plugin = "\<lparr>assets = [], config = None\<rparr>" and c = Map.empty,
          THEN conjunct2, THEN conjunct2, THEN conjunct2, THEN conjunct2, THEN conjunct1] all
  have "\<exists>c'. transformIndexHtml fs_scenario_A opts_single \<lparr>assets = [], config = None\<rparr> True Map.empty =
              Inr (new_Set (concat (map (\<lambda>t. looked_up fs_scenario_A Map.empty (pattern_of t) None)
                                      (declared_targets opts_single))), c')"
    by blast
  then show ?thesis by (simp only: e)
qed

theorem bare_string_public_root_counterexample:
  "(\<exists>c'. transformIndexHtml fs_two opts_public_array plugin_ready True Map.empty =
            Inr ([''images/pub.png''], c')) \<and>
   fs_two ''images/*.png'' None = [''images/src.png'']"
  by (simp add: transformIndexHtml_def collect_images_def opts_public_array_def plugin_ready_def
      publicDir_flag_def dev_item_def dev_target_def read_publicDir_def push_files_def
      getCachedGlobSync_def Let_def fs_two_def new_Set_def Set_add_def)

end
